theory Spec2Isabelle
  imports Main "HOL-Library.Sublist"
begin

section \<open>The blank templating system: model of blank.js\<close>

text \<open>
  JavaScript strings are modelled as \<open>string\<close> (one list element per code unit of the
  template). The transpiler only distinguishes the characters named below; every other
  code unit is copied unchanged.
\<close>

abbreviation squote :: char where "squote \<equiv> CHR 0x27"
abbreviation bslash :: char where "bslash \<equiv> CHR 0x5C"
abbreviation CR :: char where "CR \<equiv> CHR 0x0D"
abbreviation LF :: char where "LF \<equiv> CHR 0x0A"

subsection \<open>String primitives of the host language\<close>

text \<open>\<open>s.substr(i, n)\<close> for a non-negative start: at most \<open>n\<close> code units from
  position \<open>i\<close>, fewer when the string ends first, none when \<open>i\<close> is past the end.\<close>

definition substr :: "string \<Rightarrow> nat \<Rightarrow> nat \<Rightarrow> string" where
  "substr s i n = take n (drop i s)"

text \<open>\<open>s[i]\<close>: the one-character string at \<open>i\<close>, or \<open>undefined\<close> (here \<open>None\<close>) when
  \<open>i\<close> is out of range.\<close>

definition char_at :: "string \<Rightarrow> nat \<Rightarrow> char option" where
  "char_at s i = (if i < length s then Some (s ! i) else None)"

text \<open>What \<open>run += s[i]\<close> appends: the character, or the text \<open>undefined\<close>.\<close>

fun to_str :: "char option \<Rightarrow> string" where
  "to_str (Some c) = [c]"
| "to_str None = ''undefined''"

subsection \<open>makeRun: the template-to-source transpiler\<close>

text \<open>The loop variables of \<open>makeRun\<close>: the index \<open>i\<close>, the mode flag and the output.\<close>

record scan_state =
  pos :: nat
  inWrite :: bool
  run :: string

text \<open>One iteration of the \<open>for\<close> loop, including its \<open>++i\<close>. The branches are in
  the order of the source.\<close>

definition loop_body :: "string \<Rightarrow> bool \<Rightarrow> string \<Rightarrow> string \<Rightarrow> scan_state \<Rightarrow> scan_state" where
  "loop_body template asyncMode startDelim endDelim st =
    (let i = pos st in
     if inWrite st then
       (if substr template i 2 = startDelim then
          \<lparr>pos = (i + 1) + 1, inWrite = False, run = run st @ [squote] @ '');''\<rparr>
        else if char_at template i = Some CR then
          \<lparr>pos = i + 1, inWrite = True, run = run st @ [bslash] @ ''r''\<rparr>
        else if char_at template i = Some LF then
          \<lparr>pos = i + 1, inWrite = True, run = run st @ [bslash] @ ''n'' @ [bslash, LF]\<rparr>
        else if char_at template i = Some bslash \<or> char_at template i = Some squote then
          \<lparr>pos = i + 1, inWrite = True, run = run st @ [bslash] @ to_str (char_at template i)\<rparr>
        else
          \<lparr>pos = i + 1, inWrite = True, run = run st @ to_str (char_at template i)\<rparr>)
     else
       (if asyncMode \<and> substr template i 8 = ''include('' then
          \<lparr>pos = (i + 7) + 1, inWrite = False, run = run st @ ''await include(''\<rparr>
        else if substr template i 2 = endDelim then
          \<lparr>pos = (i + 1) + 1, inWrite = True, run = run st @ ''write('' @ [squote]\<rparr>
        else
          \<lparr>pos = i + 1, inWrite = False, run = run st @ to_str (char_at template i)\<rparr>))"

text \<open>The loop \<open>for (let i = 0; i < template.length; ++i)\<close>.\<close>

function makeRun_loop :: "string \<Rightarrow> bool \<Rightarrow> string \<Rightarrow> string \<Rightarrow> scan_state \<Rightarrow> scan_state" where
  "makeRun_loop template asyncMode startDelim endDelim st =
    (if pos st < length template
     then makeRun_loop template asyncMode startDelim endDelim
            (loop_body template asyncMode startDelim endDelim st)
     else st)"
  by pat_completeness auto
termination
  by (relation "measure (\<lambda>(template, asyncMode, startDelim, endDelim, st). length template - pos st)")
     (auto simp: loop_body_def Let_def)

text \<open>A thrown value of the transpiler: \<open>new Error(message)\<close>.\<close>

datatype error = Error string

text \<open>In \<open>makeRun\<close> the name \<open>path\<close> is the module-level constant
  \<open>const path = require('path')\<close>: the function has no file parameter. Concatenating
  that object into a string yields the text below.\<close>

definition path_module_text :: string where
  "path_module_text = ''[object Object]''"

definition unpaired_message :: string where
  "unpaired_message = ''File '' @ [squote] @ path_module_text @ [squote] @ '' has an un-paired %{''"

definition run_prologue :: string where
  "run_prologue = [squote] @ ''use strict'' @ [squote] @ ''; write('' @ [squote]"

text \<open>The state before the first iteration: \<open>inWrite = true\<close> and
  \<open>run = "'use strict'; write('"\<close>.\<close>

definition initial_state :: scan_state where
  "initial_state = \<lparr>pos = 0, inWrite = True, run = run_prologue\<rparr>"

definition makeRun :: "string \<Rightarrow> bool \<Rightarrow> string \<Rightarrow> string \<Rightarrow> error + string" where
  "makeRun template asyncMode startDelim endDelim =
    (let st = makeRun_loop template asyncMode startDelim endDelim initial_state
     in if \<not> inWrite st then Inl (Error unpaired_message)
        else Inr (run st @ [squote] @ '');''))"


subsection \<open>Values and contexts\<close>

text \<open>
  The values a context can hold and a template can throw. \<open>JObject\<close> is a plain object,
  given by its own enumerable properties in enumeration order; it inherits no enumerable
  property, and the keys of a context are parameter names, so none is an array index and
  enumeration order is insertion order. \<open>JError\<close> is \<open>new Error(message)\<close>;
  \<open>JNativeError\<close> is an error object that the engine itself throws, by the name of
  its class and its message (the text is V8's).
  \<open>JFunction\<close> is a function supplied by the caller, known by a name only. The last
  three constructors are the closures that \<open>includeSync\<close> and \<open>include\<close> create: they
  capture \<open>dirname\<close> and, for the include closures, the caller's \<open>dict\<close>; the flag of
  \<open>RequireClosure\<close> tells the closure of \<open>include\<close>, which logs a line first.
\<close>

datatype js_value =
    Undefined
  | Null
  | JBool bool
  | JNum int
  | JStr string
  | JObject "(string \<times> js_value) list"
  | JError string
  | JNativeError string string
  | JFunction string
  | RequireClosure bool string
  | IncludeSyncClosure string "(string \<times> js_value) list"
  | IncludeClosure string "(string \<times> js_value) list"

type_synonym js_object = "(string \<times> js_value) list"

fun typeof :: "js_value \<Rightarrow> string" where
  "typeof Undefined = ''undefined''"
| "typeof Null = ''object''"
| "typeof (JBool b) = ''boolean''"
| "typeof (JNum n) = ''number''"
| "typeof (JStr s) = ''string''"
| "typeof (JObject kvs) = ''object''"
| "typeof (JError m) = ''object''"
| "typeof (JNativeError c m) = ''object''"
| "typeof (JFunction f) = ''function''"
| "typeof (RequireClosure lg d) = ''function''"
| "typeof (IncludeSyncClosure d c) = ''function''"
| "typeof (IncludeClosure d c) = ''function''"

text \<open>The test of \<open>if (err)\<close>.\<close>

fun truthy :: "js_value \<Rightarrow> bool" where
  "truthy Undefined = False"
| "truthy Null = False"
| "truthy (JBool b) = b"
| "truthy (JNum n) = (n \<noteq> 0)"
| "truthy (JStr s) = (s \<noteq> [])"
| "truthy v = True"

text \<open>\<open>k in o\<close>, \<open>o[k]\<close> and \<open>o[k] = v\<close> on the properties of a plain object.\<close>

definition has_key :: "js_object \<Rightarrow> string \<Rightarrow> bool" where
  "has_key kvs k = (map_of kvs k \<noteq> None)"

definition obj_get :: "js_object \<Rightarrow> string \<Rightarrow> js_value" where
  "obj_get kvs k = (case map_of kvs k of Some v \<Rightarrow> v | None \<Rightarrow> Undefined)"

fun obj_set :: "js_object \<Rightarrow> string \<Rightarrow> js_value \<Rightarrow> js_object" where
  "obj_set [] k v = [(k, v)]"
| "obj_set ((k', v') # kvs) k v = (if k' = k then (k, v) # kvs else (k', v') # obj_set kvs k v)"

text \<open>\<open>Object.assign(target, source)\<close>: every own enumerable property of the source is
  set on the target, in the source's order.\<close>

definition object_assign :: "js_object \<Rightarrow> js_object \<Rightarrow> js_object" where
  "object_assign target source = foldl (\<lambda>t (k, v). obj_set t k v) target source"

text \<open>\<open>dict.write\<close> on an arbitrary value: reading a property of \<open>null\<close> or
  \<open>undefined\<close> throws a TypeError, whose message names the value and the property;
  values other than plain objects have no such property.\<close>

definition nullish_property_error :: "string \<Rightarrow> string \<Rightarrow> js_value" where
  "nullish_property_error v k =
     JNativeError ''TypeError''
       (''Cannot read properties of '' @ v @ '' (reading '' @ [squote] @ k @ [squote] @ '')'')"

fun get_prop :: "js_value \<Rightarrow> string \<Rightarrow> js_value + js_value" where
  "get_prop Undefined k = Inl (nullish_property_error ''undefined'' k)"
| "get_prop Null k = Inl (nullish_property_error ''null'' k)"
| "get_prop (JObject kvs) k = Inr (obj_get kvs k)"
| "get_prop v k = Inr Undefined"

text \<open>The properties that \<open>for (let n in dict)\<close> and \<open>Object.assign\<close> see.\<close>

fun own_props :: "js_value \<Rightarrow> js_object" where
  "own_props (JObject kvs) = kvs"
| "own_props v = []"

subsection \<open>The injected capabilities\<close>

text \<open>\<open>path.posix.isAbsolute\<close>: the path starts with a slash.\<close>

fun isAbsolute :: "string \<Rightarrow> bool" where
  "isAbsolute [] = False"
| "isAbsolute (c # cs) = (c = CHR ''/'')"

text \<open>The first statement of the injected \<open>include\<close>: includes are relative to the
  including file.\<close>

definition include_target :: "string \<Rightarrow> string \<Rightarrow> string" where
  "include_target dirname path2 = (if \<not> isAbsolute path2 then dirname @ ''/'' @ path2 else path2)"

text \<open>The context of the nested run: \<open>merged = {}\<close>, \<open>Object.assign(merged, dict)\<close>, and
  \<open>Object.assign(merged, dict2)\<close> unless \<open>dict2\<close> is undefined (here \<open>None\<close>). \<open>dict\<close> is
  the parameter of the enclosing \<open>includeSync\<close> or \<open>include\<close> call.\<close>

definition include_merged :: "js_object \<Rightarrow> js_object option \<Rightarrow> js_object" where
  "include_merged dict dict2 =
    (let merged = object_assign [] dict in
     case dict2 of None \<Rightarrow> merged | Some d2 \<Rightarrow> object_assign merged d2)"

text \<open>The path rewriting of the injected \<open>require\<close>; the two tests follow each other.\<close>

definition require_path :: "string \<Rightarrow> string \<Rightarrow> string" where
  "require_path dirname path0 =
    (let path1 = (if prefix ''./'' path0 then dirname @ drop 1 path0 else path0);
         path2 = (if prefix ''../'' path1 then dirname @ ''/'' @ path1 else path1)
     in path2)"

text \<open>The parameter names and the argument values built from \<open>dict\<close>: the loop over the
  keys, then \<open>require\<close> and \<open>include\<close> where \<open>dict\<close> has none.\<close>

definition build_args_sync :: "js_object \<Rightarrow> string \<Rightarrow> string list \<times> js_value list" where
  "build_args_sync dict dirname =
    (let FunctionArgs = map fst dict;
         funcArgs = map (obj_get dict) (map fst dict);
         FunctionArgs1 = (if \<not> has_key dict ''require'' then FunctionArgs @ [''require''] else FunctionArgs);
         funcArgs1 = (if \<not> has_key dict ''require'' then funcArgs @ [RequireClosure False dirname] else funcArgs);
         FunctionArgs2 = (if \<not> has_key dict ''include'' then FunctionArgs1 @ [''include''] else FunctionArgs1);
         funcArgs2 = (if \<not> has_key dict ''include'' then funcArgs1 @ [IncludeSyncClosure dirname dict] else funcArgs1)
     in (FunctionArgs2, funcArgs2))"

definition build_args_async :: "js_object \<Rightarrow> string \<Rightarrow> string list \<times> js_value list" where
  "build_args_async dict dirname =
    (let AsyncFunctionArgs = map fst dict;
         funcArgs = map (obj_get dict) (map fst dict);
         AsyncFunctionArgs1 = (if \<not> has_key dict ''require'' then AsyncFunctionArgs @ [''require''] else AsyncFunctionArgs);
         funcArgs1 = (if \<not> has_key dict ''require'' then funcArgs @ [RequireClosure True dirname] else funcArgs);
         AsyncFunctionArgs2 = (if \<not> has_key dict ''include'' then AsyncFunctionArgs1 @ [''include''] else AsyncFunctionArgs1);
         funcArgs2 = (if \<not> has_key dict ''include'' then funcArgs1 @ [IncludeClosure dirname dict] else funcArgs1)
     in (AsyncFunctionArgs2, funcArgs2))"

text \<open>\<open>func.apply(func, funcArgs)\<close> binds the values to the parameter names by position;
  a parameter without a value is \<open>undefined\<close>, a value without a parameter is dropped.\<close>

definition bind_params :: "string list \<Rightarrow> js_value list \<Rightarrow> js_object" where
  "bind_params names vals = zip names (vals @ replicate (length names - length vals) Undefined)"


subsection \<open>The host: files, paths and the execution of generated source\<close>

text \<open>
  What a constructed procedure does when it is invoked is the host's evaluation of
  trusted template code. The model takes it as a sequence of actions: a call
  \<open>name(text)\<close> or \<open>name(text, object)\<close> of a name of the procedure's scope, or a
  \<open>throw\<close>. The first argument of a call is a string, the second is absent (\<open>None\<close>)
  or a plain object. The flag of a call tells whether the code awaits its result. Only
  code of the suspending mode can: there \<open>makeRun\<close> writes \<open>await\<close> in front of every
  occurrence of the text \<open>include(\<close> and of nothing else, so that \<open>include ('x')\<close>, a
  call through another name, or \<open>include.call(...)\<close> is not awaited unless the template
  awaits it itself. Blocking code awaits nothing, and the flag has no meaning there. A
  caller-supplied function returns normally, and so does the module load of the injected
  require; one that throws is a call followed by \<open>Throw\<close>.
\<close>

datatype action =
    Call string string "js_object option" bool
  | Throw js_value

text \<open>
  \<open>readFile\<close> is \<open>fs.readFileSync\<close> or \<open>fs.readFile\<close> with the utf8 encoding (\<open>Inl\<close> the
  error it fails with). \<open>resolve_dirname\<close> is
  \<open>path.posix.dirname(path.resolve(filepath))\<close>. \<open>construct\<close> is
  \<open>Reflect.construct(Function, args)\<close>, or the same with \<open>AsyncFunction\<close> when the flag
  is set: from the parameter names and the body it gives a syntax error or a procedure,
  which maps the bindings of its parameters to the actions it performs.
\<close>

record host =
  readFile :: "string \<Rightarrow> js_value + string"
  resolve_dirname :: "string \<Rightarrow> string"
  construct :: "bool \<Rightarrow> string list \<Rightarrow> string \<Rightarrow> js_value + (js_object \<Rightarrow> action list)"

text \<open>The callback handed to \<open>include\<close>: the caller's (a function that returns
  normally, known by a name), or the one the injected include makes,
  \<open>(err) => { if (err) reject(err); else resolve(); }\<close>.\<close>

datatype callback = UserCallback string | PromiseCallback

text \<open>
  What a run does to the world, in order: a file read; the construction of a procedure
  from parameter names followed by the body; its invocation on argument values; a call of
  a caller-supplied function; a module load and a console line of the injected require;
  the start of a suspending include that nothing awaits; a call of the callback of
  \<open>include\<close>.

  \<open>Detached\<close> carries the file and the context of the started run. That run goes on by
  itself, as \<open>include_async\<close> on this file and context with the callback of its promise;
  what it does happens at moments of its own and is not in the trace of the run that
  started it, and when it fails it rejects a promise that nobody holds (what the engine
  does about such a rejection is not modelled).
\<close>

datatype event =
    FileRead string
  | Constructed "string list"
  | Applied "js_value list"
  | CallOut string "js_value list"
  | ModuleLoad string
  | ConsoleLog string
  | Detached string js_object
  | CallbackCall callback "js_value list"

text \<open>How a piece of code ends: it returns, or it throws a value.\<close>

datatype completion = Normal | Throws js_value

text \<open>The messages of the errors, the argument list of a call, and events put in front
  of the result of the rest of a run.\<close>

definition context_message :: string where
  "context_message = ''dict must be an object including a '' @ [squote] @ ''write'' @ [squote] @ '' function.''"

definition call_args :: "string \<Rightarrow> js_object option \<Rightarrow> js_value list" where
  "call_args a d = (case d of None \<Rightarrow> [JStr a] | Some kvs \<Rightarrow> [JStr a, JObject kvs])"

definition then_events :: "event list \<Rightarrow> (event list \<times> completion) option \<Rightarrow> (event list \<times> completion) option" where
  "then_events evs r = map_option (apfst ((@) evs)) r"

text \<open>The delimiters of \<open>includeSync\<close>: the defaults, replaced by the entries of the
  options object (\<open>None\<close> when no options object is passed; the entries are strings).\<close>

definition option_or :: "(string \<times> string) list option \<Rightarrow> string \<Rightarrow> string \<Rightarrow> string" where
  "option_or options key dflt =
    (case options of
       None \<Rightarrow> dflt
     | Some opts \<Rightarrow> (case map_of opts key of Some d \<Rightarrow> d | None \<Rightarrow> dflt))"

subsection \<open>includeSync\<close>

text \<open>
  The result is the events of the run and how it ended. The first argument bounds the
  nesting depth of includes: \<open>None\<close> is a run that nests deeper. In the body,
  \<open>dirname\<close> is \<open>resolve_dirname h filepath\<close>, and \<open>FunctionArgs\<close> and \<open>funcArgs\<close>
  are the two components of \<open>build_args_sync\<close> on the properties of \<open>dict\<close>; the
  steps are in the order of the source: the check of \<open>dict\<close>, the read, \<open>makeRun\<close>,
  the construction, the invocation. \<open>exec_sync\<close> runs the actions of the constructed
  procedure; a call goes by the value bound to the called name.
\<close>

fun includeSync :: "nat \<Rightarrow> host \<Rightarrow> string \<Rightarrow> js_value \<Rightarrow> (string \<times> string) list option
                      \<Rightarrow> (event list \<times> completion) option"
and exec_sync :: "nat \<Rightarrow> host \<Rightarrow> js_object \<Rightarrow> action list \<Rightarrow> (event list \<times> completion) option"
where
  "includeSync 0 h filepath dict options = None"
| "includeSync (Suc n) h filepath dict options =
    (if typeof dict \<noteq> ''object'' then Some ([], Throws (JStr context_message))
     else case get_prop dict ''write'' of
       Inl e \<Rightarrow> Some ([], Throws e)
     | Inr w \<Rightarrow>
        if typeof w \<noteq> ''function'' then Some ([], Throws (JStr context_message))
        else (case readFile h filepath of
           Inl e \<Rightarrow> Some ([FileRead filepath], Throws e)
         | Inr template \<Rightarrow>
            (case makeRun template False (option_or options ''startDelim'' ''%{'')
                                         (option_or options ''endDelim'' ''}%'') of
               Inl (Error m) \<Rightarrow> Some ([FileRead filepath], Throws (JError m))
             | Inr run' \<Rightarrow>
                (case construct h False (fst (build_args_sync (own_props dict) (resolve_dirname h filepath))) run' of
                   Inl e \<Rightarrow> Some ([FileRead filepath,
                                     Constructed (fst (build_args_sync (own_props dict) (resolve_dirname h filepath)) @ [run'])],
                                    Throws e)
                 | Inr func \<Rightarrow>
                    then_events
                      [FileRead filepath,
                       Constructed (fst (build_args_sync (own_props dict) (resolve_dirname h filepath)) @ [run']),
                       Applied (snd (build_args_sync (own_props dict) (resolve_dirname h filepath)))]
                      (exec_sync n h
                         (bind_params (fst (build_args_sync (own_props dict) (resolve_dirname h filepath)))
                                      (snd (build_args_sync (own_props dict) (resolve_dirname h filepath))))
                         (func (bind_params (fst (build_args_sync (own_props dict) (resolve_dirname h filepath)))
                                            (snd (build_args_sync (own_props dict) (resolve_dirname h filepath))))))))))"
| "exec_sync n h scope [] = Some ([], Normal)"
| "exec_sync n h scope (Throw v # rest) = Some ([], Throws v)"
| "exec_sync n h scope (Call f a d awaited # rest) =
    (case map_of scope f of
       None \<Rightarrow> Some ([], Throws (JNativeError ''ReferenceError'' (f @ '' is not defined'')))
     | Some (JFunction g) \<Rightarrow> then_events [CallOut g (call_args a d)] (exec_sync n h scope rest)
     | Some (RequireClosure lg dirname) \<Rightarrow>
         then_events ((if lg then [ConsoleLog ''custom require''] else []) @ [ModuleLoad (require_path dirname a)])
           (exec_sync n h scope rest)
     | Some (IncludeSyncClosure dirname dict) \<Rightarrow>
         (case includeSync n h (include_target dirname a) (JObject (include_merged dict d)) None of
            None \<Rightarrow> None
          | Some (evs, Throws e) \<Rightarrow> Some (evs, Throws e)
          | Some (evs, Normal) \<Rightarrow> then_events evs (exec_sync n h scope rest))
     | Some (IncludeClosure dirname dict) \<Rightarrow>
         then_events [Detached (include_target dirname a) (include_merged dict d)] (exec_sync n h scope rest)
     | Some v \<Rightarrow> Some ([], Throws (JNativeError ''TypeError'' (f @ '' is not a function''))))"

subsection \<open>include\<close>

text \<open>How the promise made by the injected include settles: its callback is the last
  thing the nested \<open>include\<close> calls, and \<open>if (err)\<close> looks at the first argument.\<close>

fun promise_settled :: "event list \<Rightarrow> completion" where
  "promise_settled evs =
    (case rev evs of
       CallbackCall cb (err # others) # earlier \<Rightarrow> (if truthy err then Throws err else Normal)
     | _ \<Rightarrow> Normal)"

text \<open>
  \<open>include_async\<close> is the function \<open>include\<close> of the source (the name is taken in
  Isabelle), whole: the \<open>try\<close> block, then \<open>callback(err)\<close> in the
  \<open>catch\<close> clause or \<open>callback()\<close> after it. \<open>include_try\<close> is the \<open>try\<close> block. The
  first argument bounds the nesting depth as for \<open>includeSync\<close>. \<open>exec_async\<close> runs
  the actions of the constructed procedure. A call of the injected include that is
  awaited waits for the nested run and takes up the settlement of its promise: a
  rejection is thrown at the call. One that is not awaited starts the nested run and goes
  on at once, whatever becomes of that run. A run of \<open>includeSync\<close> blocks in either
  case.
\<close>

fun include_async :: "nat \<Rightarrow> host \<Rightarrow> string \<Rightarrow> js_value \<Rightarrow> callback \<Rightarrow> event list option"
and include_try :: "nat \<Rightarrow> host \<Rightarrow> string \<Rightarrow> js_value \<Rightarrow> (event list \<times> completion) option"
and exec_async :: "nat \<Rightarrow> host \<Rightarrow> js_object \<Rightarrow> action list \<Rightarrow> (event list \<times> completion) option"
where
  "include_async n h filepath dict callback =
    (case include_try n h filepath dict of
       None \<Rightarrow> None
     | Some (evs, Throws err) \<Rightarrow> Some (evs @ [CallbackCall callback [err]])
     | Some (evs, Normal) \<Rightarrow> Some (evs @ [CallbackCall callback []]))"
| "include_try 0 h filepath dict = None"
| "include_try (Suc n) h filepath dict =
    (if typeof dict \<noteq> ''object'' then Some ([], Throws (JError context_message))
     else case get_prop dict ''write'' of
       Inl e \<Rightarrow> Some ([], Throws e)
     | Inr w \<Rightarrow>
        if typeof w \<noteq> ''function'' then Some ([], Throws (JError context_message))
        else (case readFile h filepath of
           Inl e \<Rightarrow> Some ([FileRead filepath], Throws e)
         | Inr template \<Rightarrow>
            (case makeRun template True ''%{'' ''}%'' of
               Inl (Error m) \<Rightarrow> Some ([FileRead filepath], Throws (JError m))
             | Inr run' \<Rightarrow>
                (case construct h True (fst (build_args_async (own_props dict) (resolve_dirname h filepath))) run' of
                   Inl e \<Rightarrow> Some ([FileRead filepath,
                                     Constructed (fst (build_args_async (own_props dict) (resolve_dirname h filepath)) @ [run'])],
                                    Throws e)
                 | Inr func \<Rightarrow>
                    then_events
                      [FileRead filepath,
                       Constructed (fst (build_args_async (own_props dict) (resolve_dirname h filepath)) @ [run']),
                       Applied (snd (build_args_async (own_props dict) (resolve_dirname h filepath)))]
                      (exec_async n h
                         (bind_params (fst (build_args_async (own_props dict) (resolve_dirname h filepath)))
                                      (snd (build_args_async (own_props dict) (resolve_dirname h filepath))))
                         (func (bind_params (fst (build_args_async (own_props dict) (resolve_dirname h filepath)))
                                            (snd (build_args_async (own_props dict) (resolve_dirname h filepath))))))))))"
| "exec_async n h scope [] = Some ([], Normal)"
| "exec_async n h scope (Throw v # rest) = Some ([], Throws v)"
| "exec_async n h scope (Call f a d awaited # rest) =
    (case map_of scope f of
       None \<Rightarrow> Some ([], Throws (JNativeError ''ReferenceError'' (f @ '' is not defined'')))
     | Some (JFunction g) \<Rightarrow> then_events [CallOut g (call_args a d)] (exec_async n h scope rest)
     | Some (RequireClosure lg dirname) \<Rightarrow>
         then_events ((if lg then [ConsoleLog ''custom require''] else []) @ [ModuleLoad (require_path dirname a)])
           (exec_async n h scope rest)
     | Some (IncludeClosure dirname dict) \<Rightarrow>
         (if awaited then
            (case include_async n h (include_target dirname a) (JObject (include_merged dict d)) PromiseCallback of
               None \<Rightarrow> None
             | Some evs \<Rightarrow>
                (case promise_settled evs of
                   Throws err \<Rightarrow> Some (evs, Throws err)
                 | Normal \<Rightarrow> then_events evs (exec_async n h scope rest)))
          else then_events [Detached (include_target dirname a) (include_merged dict d)]
                 (exec_async n h scope rest))
     | Some (IncludeSyncClosure dirname dict) \<Rightarrow>
         (case includeSync n h (include_target dirname a) (JObject (include_merged dict d)) None of
            None \<Rightarrow> None
          | Some (evs, Throws e) \<Rightarrow> Some (evs, Throws e)
          | Some (evs, Normal) \<Rightarrow> then_events evs (exec_async n h scope rest))
     | Some v \<Rightarrow> Some ([], Throws (JNativeError ''TypeError'' (f @ '' is not a function''))))"




section \<open>The segment view of a template\<close>

text \<open>
  The specification describes a template as alternating literal and code spans. The
  definitions of this section follow that description; they are compared with
  \<open>makeRun\<close> below.
\<close>

datatype segment = Literal string | Code string

text \<open>\<open>split_at d s\<close> cuts \<open>s\<close> at the first occurrence of the delimiter \<open>d\<close>: the
  text before it and the text after it; \<open>None\<close> when \<open>d\<close> does not occur (an empty
  delimiter never does).\<close>

fun split_at :: "string \<Rightarrow> string \<Rightarrow> (string \<times> string) option" where
  "split_at d [] = None"
| "split_at d (c # cs) =
    (if d \<noteq> [] \<and> prefix d (c # cs) then Some ([], drop (length d) (c # cs))
     else map_option (apfst ((#) c)) (split_at d cs))"

text \<open>The segments of a text that starts in a literal span (or in a code span, with the
  flag set): a literal span ends at the next start delimiter, a code span at the next
  end delimiter, the last span at the end of the text.\<close>

function segments :: "string \<Rightarrow> string \<Rightarrow> bool \<Rightarrow> string \<Rightarrow> segment list" where
  "segments sd ed inCode s =
    (if inCode then
       (case split_at ed s of
          None \<Rightarrow> [Code s]
        | Some (b, r) \<Rightarrow> Code b # segments sd ed False r)
     else
       (case split_at sd s of
          None \<Rightarrow> [Literal s]
        | Some (b, r) \<Rightarrow> Literal b # segments sd ed True r))"
  by pat_completeness auto
termination
proof (relation "measure (\<lambda>(sd, ed, inCode, s). length s)")
  have shorter: "length r < length s" if "split_at d s = Some (b, r)" for d s b r
    using that
  proof (induction s arbitrary: b r)
    case Nil
    then show ?case by simp
  next
    case (Cons c cs)
    show ?case
    proof (cases "d \<noteq> [] \<and> prefix d (c # cs)")
      case True
      then have "r = drop (length d) (c # cs)" "0 < length d"
        using Cons.prems by simp_all
      then show ?thesis by simp
    next
      case False
      then obtain b' where "split_at d cs = Some (b', r)"
        using Cons.prems by auto
      then have "length r < length cs" by (rule Cons.IH)
      then show ?thesis by simp
    qed
  qed
  show "wf (measure (\<lambda>(sd, ed, inCode, s). length s))" by simp
  show "((sd, ed, False, r), sd, ed, inCode, s) \<in> measure (\<lambda>(sd, ed, inCode, s). length s)"
    if "inCode" "split_at ed s = Some x" "(b, r) = x" for sd ed inCode s x b r
    using that shorter[of ed s b r] by simp
  show "((sd, ed, True, r), sd, ed, inCode, s) \<in> measure (\<lambda>(sd, ed, inCode, s). length s)"
    if "\<not> inCode" "split_at sd s = Some x" "(b, r) = x" for sd ed inCode s x b r
    using that shorter[of sd s b r] by simp
qed


text \<open>The escaping rules of the specification for one character of a literal span, and
  for a whole span.\<close>

fun escape_char :: "char \<Rightarrow> string" where
  "escape_char c =
    (if c = CR then [bslash, CHR ''r'']
     else if c = LF then [bslash, CHR ''n'', bslash, LF]
     else if c = bslash \<or> c = squote then [bslash, c]
     else [c])"

definition escape_text :: "string \<Rightarrow> string" where
  "escape_text s = concat (map escape_char s)"

text \<open>The suspension rewrite as a substitution on a text: every occurrence of
  \<open>include(\<close>, from left to right, gets \<open>await\<close> in front.\<close>

fun await_rewrite :: "string \<Rightarrow> string" where
  "await_rewrite [] = []"
| "await_rewrite (c # cs) =
    (if take 8 (c # cs) = ''include('' then ''await include('' @ await_rewrite (drop 7 cs)
     else c # await_rewrite cs)"

text \<open>The compiled form of a segment inside the running write call: a literal span is
  its escaped text; a code span closes the call, passes its text through (rewritten in
  the suspending mode) and opens the next call. \<open>spec_transpile\<close> is the compiled source
  of a template by the specification: an error when the last segment is code, else the
  strict-mode pragma, the rendered segments and the end of the last call.\<close>

fun render :: "bool \<Rightarrow> segment \<Rightarrow> string" where
  "render a (Literal s) = escape_text s"
| "render a (Code s) = [squote] @ '');'' @ (if a then await_rewrite s else s) @ ''write('' @ [squote]"

fun is_Code :: "segment \<Rightarrow> bool" where
  "is_Code (Code s) = True"
| "is_Code (Literal s) = False"

definition spec_transpile :: "string \<Rightarrow> bool \<Rightarrow> string \<Rightarrow> string \<Rightarrow> error + string" where
  "spec_transpile t a sd ed =
    (let segs = segments sd ed False t in
     if is_Code (last segs) then Inl (Error unpaired_message)
     else Inr (run_prologue @ concat (map (render a) segs) @ [squote] @ '');''))"


text \<open>
  The value of the body of a single-quoted string literal in the host language, for the
  escapes the transpiler emits: backslash-n, backslash-r, an escaped backslash or quote,
  and a backslash before a line break, which continues the literal on the next line and
  adds nothing. \<open>None\<close> is a body that is no literal (a bare quote or line break, a
  dangling backslash) or uses another escape.
\<close>

fun js_string_value :: "string \<Rightarrow> string option" where
  "js_string_value [] = Some []"
| "js_string_value [c] = (if c = bslash \<or> c = squote \<or> c = LF \<or> c = CR then None else Some [c])"
| "js_string_value (c # d # cs) =
    (if c = bslash then
       (if d = LF then js_string_value cs
        else if d = CHR ''n'' then map_option ((#) LF) (js_string_value cs)
        else if d = CHR ''r'' then map_option ((#) CR) (js_string_value cs)
        else if d = bslash \<or> d = squote then map_option ((#) d) (js_string_value cs)
        else None)
     else if c = squote \<or> c = LF \<or> c = CR then None
     else map_option ((#) c) (js_string_value (d # cs)))"


text \<open>The code spans of a segment list.\<close>

fun code_sections :: "segment list \<Rightarrow> string list" where
  "code_sections [] = []"
| "code_sections (Code s # segs) = s # code_sections segs"
| "code_sections (Literal s # segs) = code_sections segs"

section \<open>The loop as a recursion over the unread input\<close>

text \<open>\<open>scan\<close> reads the rest of the template as a list; it returns the final mode
  and the text appended to \<open>run\<close>. It is only used to reason about the loop.\<close>

fun scan :: "bool \<Rightarrow> string \<Rightarrow> string \<Rightarrow> bool \<Rightarrow> string \<Rightarrow> bool \<times> string" where
  "scan a sd ed w [] = (w, [])"
| "scan a sd ed True (c # cs) =
    (if take 2 (c # cs) = sd then apsnd ((@) ([squote] @ '');'')) (scan a sd ed False (drop 1 cs))
     else if c = CR then apsnd ((@) ([bslash] @ ''r'')) (scan a sd ed True cs)
     else if c = LF then apsnd ((@) ([bslash] @ ''n'' @ [bslash, LF])) (scan a sd ed True cs)
     else if c = bslash \<or> c = squote then apsnd ((@) [bslash, c]) (scan a sd ed True cs)
     else apsnd ((@) [c]) (scan a sd ed True cs))"
| "scan a sd ed False (c # cs) =
    (if a \<and> take 8 (c # cs) = ''include('' then apsnd ((@) ''await include('') (scan a sd ed False (drop 7 cs))
     else if take 2 (c # cs) = ed then apsnd ((@) (''write('' @ [squote])) (scan a sd ed True (drop 1 cs))
     else apsnd ((@) [c]) (scan a sd ed False cs))"


section \<open>Example templates, contexts and hosts\<close>

text \<open>The concrete inputs at which the theorems below are instantiated: two templates,
  a host with a few files, three contexts, two hosts whose only template includes itself
  (spelled \<open>include(\<close> in the first and \<open>include (\<close> in the second), and the events of
  the suspending run of the file \<open>hello._\<close>.\<close>

definition tpl_no_include :: string where
  "tpl_no_include = ''include(x) %{ inc(1); }% b''"

definition tpl_include :: string where
  "tpl_include = ''a %{ include(x); }% b''"

text \<open>A host with a few files. Its procedures perform what the generated source of each
  file says: the literal writes, the include call, the throw. The include call is awaited
  where the generated source says \<open>await include(\<close>: in the suspending mode, when the
  template spells it \<open>include(\<close>; the template \<open>spaced._\<close> spells it \<open>include (\<close>.\<close>

definition demo_host :: host where
  "demo_host =
    \<lparr>readFile = (\<lambda>p.
        if p = ''/dir/main._'' then Inr (''a %{ include('' @ [squote] @ ''sub._'' @ [squote] @ ''); }% b'')
        else if p = ''/dir/sub._'' then Inr ''%{ throw null; }%''
        else if p = ''/dir/outer._'' then Inr (''%{ include('' @ [squote] @ ''none._'' @ [squote] @ ''); }%'')
        else if p = ''/dir/spaced._'' then Inr (''%{ include ('' @ [squote] @ ''none._'' @ [squote] @ ''); }%'')
        else if p = ''/dir/hello._'' then Inr ''hello''
        else if p = ''/dir/open._'' then Inr ''abc %{ write(1);''
        else if p = ''/dir/bad._'' then Inr ''%{ ) }%''
        else Inl (JError ''ENOENT: no such file or directory'')),
      resolve_dirname = (\<lambda>p. ''/dir''),
      construct = (\<lambda>asyncFlag params body.
        if sublist '' ) '' body then Inl (JError ''SyntaxError: Unexpected token'')
        else if sublist ''throw null'' body then
          Inr (\<lambda>scope. [Call ''write'' [] None False, Throw Null, Call ''write'' [] None False])
        else if sublist ''include ('' body then
          Inr (\<lambda>scope. [Call ''write'' [] None False, Call ''include'' ''none._'' None False,
                          Call ''write'' [] None False])
        else if sublist ''none._'' body then
          Inr (\<lambda>scope. [Call ''write'' [] None False, Call ''include'' ''none._'' None asyncFlag,
                          Call ''write'' [] None False])
        else if sublist ''include('' body then
          Inr (\<lambda>scope. [Call ''write'' ''a '' None False, Call ''include'' ''sub._'' None asyncFlag,
                          Call ''write'' '' b'' None False])
        else Inr (\<lambda>scope. [Call ''write'' ''hello'' None False]))\<rparr>"

definition demo_dict :: js_object where
  "demo_dict = [(''write'', JFunction ''w''), (''a'', JNum 1)]"

definition parent_dict :: js_object where
  "parent_dict = [(''write'', JFunction ''w''), (''a'', JNum 1), (''b'', JNum 2)]"

definition override_dict :: js_object where
  "override_dict = [(''b'', JNum 3), (''c'', JNum 4)]"





section \<open>Properties of the transpiler\<close>

declare makeRun_loop.simps [simp del]
declare segments.simps [simp del]

lemma drop_pos_Cons: "i < length t \<Longrightarrow> drop i t = t ! i # drop (Suc i) t"
  by (simp add: Cons_nth_drop_Suc)

lemma loop_body_scan:
  assumes "pos st < length t"
  shows "\<exists>out. scan a sd ed (inWrite st) (drop (pos st) t)
            = apsnd ((@) out) (scan a sd ed (inWrite (loop_body t a sd ed st)) (drop (pos (loop_body t a sd ed st)) t))
          \<and> run (loop_body t a sd ed st) = run st @ out"
proof -
  have d: "drop (pos st) t = t ! pos st # drop (Suc (pos st)) t"
    using assms by (rule drop_pos_Cons)
  have d2: "drop (Suc (Suc (pos st))) t = drop 1 (drop (Suc (pos st)) t)"
    by simp
  have d8: "drop (8 + pos st) t = drop 7 (drop (Suc (pos st)) t)"
    by (simp add: add.commute)
  show ?thesis
  proof (cases "inWrite st")
    case True
    then show ?thesis
      using assms d2 unfolding d
      by (simp add: loop_body_def Let_def substr_def char_at_def d del: drop_Suc_Cons drop_drop) 
  next
    case False
    then show ?thesis
      using assms d2 d8 unfolding d
      by (simp add: loop_body_def Let_def substr_def char_at_def d del: drop_Suc_Cons drop_drop)
  qed
qed

lemma makeRun_loop_scan:
  "inWrite (makeRun_loop t a sd ed st) = fst (scan a sd ed (inWrite st) (drop (pos st) t)) \<and>
   run (makeRun_loop t a sd ed st) = run st @ snd (scan a sd ed (inWrite st) (drop (pos st) t))"
proof (induction t a sd ed st rule: makeRun_loop.induct)
  case (1 t a sd ed st)
  show ?case
  proof (cases "pos st < length t")
    case False
    then show ?thesis by (simp add: makeRun_loop.simps)
  next
    case True
    from loop_body_scan[OF True, of a sd ed] obtain out where
      o: "scan a sd ed (inWrite st) (drop (pos st) t)
            = apsnd ((@) out) (scan a sd ed (inWrite (loop_body t a sd ed st)) (drop (pos (loop_body t a sd ed st)) t))"
         "run (loop_body t a sd ed st) = run st @ out" by blast
    have step: "makeRun_loop t a sd ed st = makeRun_loop t a sd ed (loop_body t a sd ed st)"
      using True by (subst makeRun_loop.simps) simp
    show ?thesis
      using "1.IH"[OF True] o by (simp add: step apsnd_def map_prod_def split_beta)
  qed
qed


lemma js_string_value_plain:
  "c \<noteq> bslash \<Longrightarrow> c \<noteq> squote \<Longrightarrow> c \<noteq> LF \<Longrightarrow> c \<noteq> CR \<Longrightarrow>
   js_string_value (c # r) = map_option ((#) c) (js_string_value r)"
  by (cases r) simp_all

lemma js_string_value_escape_char:
  "js_string_value (escape_char c @ r) = map_option ((#) c) (js_string_value r)"
  by (simp add: js_string_value_plain)

lemma escape_roundtrip: "js_string_value (escape_text s) = Some s"
  by (induction s) (simp_all add: escape_text_def js_string_value_escape_char del: escape_char.simps)


lemma take2_prefix: "length d = 2 \<Longrightarrow> (take 2 s = d) = (d \<noteq> [] \<and> prefix d s)"
proof -
  assume l: "length d = 2"
  have "take 2 s = d \<Longrightarrow> prefix d s"
    by (metis take_is_prefix)
  moreover have "prefix d s \<Longrightarrow> take 2 s = d"
    using l by (auto simp: prefix_def)
  moreover have "d \<noteq> []" using l by auto
  ultimately show ?thesis by blast
qed

lemma scan_write_split:
  assumes "length sd = 2"
  shows "scan a sd ed True s =
    (case split_at sd s of
       None \<Rightarrow> (True, escape_text s)
     | Some (b, r) \<Rightarrow> apsnd ((@) (escape_text b @ [squote] @ '');'')) (scan a sd ed False r))"
proof (induction s)
  case Nil
  then show ?case by (simp add: escape_text_def)
next
  case (Cons c cs)
  show ?case
  proof (cases "take 2 (c # cs) = sd")
    case True
    then have p: "sd \<noteq> [] \<and> prefix sd (c # cs)" using take2_prefix[OF assms] by blast
    have "drop (length sd) (c # cs) = drop 1 cs" using assms by simp
    then show ?thesis using True p by (simp add: escape_text_def)
  next
    case False
    then have p: "\<not> (sd \<noteq> [] \<and> prefix sd (c # cs))" using take2_prefix[OF assms] by blast
    show ?thesis
      using False p Cons.IH
      by (cases "split_at sd cs") (auto simp add: escape_text_def apsnd_def map_prod_def split_beta)
  qed
qed

lemma scan_code_split_sync:
  assumes "length ed = 2"
  shows "scan False sd ed False s =
    (case split_at ed s of
       None \<Rightarrow> (False, s)
     | Some (b, r) \<Rightarrow> apsnd ((@) (b @ ''write('' @ [squote])) (scan False sd ed True r))"
proof (induction s)
  case Nil
  then show ?case by simp
next
  case (Cons c cs)
  show ?case
  proof (cases "take 2 (c # cs) = ed")
    case True
    then have p: "ed \<noteq> [] \<and> prefix ed (c # cs)" using take2_prefix[OF assms] by blast
    have "drop (length ed) (c # cs) = drop 1 cs" using assms by simp
    then show ?thesis using True p by simp
  next
    case False
    then have p: "\<not> (ed \<noteq> [] \<and> prefix ed (c # cs))" using take2_prefix[OF assms] by blast
    show ?thesis
      using False p Cons.IH
      by (cases "split_at ed cs") (auto simp add: apsnd_def map_prod_def split_beta)
  qed
qed

lemma split_at_Some: "split_at d s = Some (b, r) \<Longrightarrow> s = b @ d @ r"
proof (induction s arbitrary: b)
  case Nil
  then show ?case by simp
next
  case (Cons c cs)
  show ?case
  proof (cases "d \<noteq> [] \<and> prefix d (c # cs)")
    case True
    then have "b = []" "r = drop (length d) (c # cs)" using Cons.prems by simp_all
    moreover have "c # cs = d @ drop (length d) (c # cs)"
      using True by (auto simp: prefix_def)
    ultimately show ?thesis by simp
  next
    case False
    then obtain b' where b': "split_at d cs = Some (b', r)" "b = c # b'"
      using Cons.prems by auto
    from Cons.IH[OF b'(1)] b'(2) show ?thesis by simp
  qed
qed

lemma split_at_skip_include:
  assumes "take 8 s = ''include(''"
  shows "split_at ''}%'' s = map_option (apfst ((@) ''include('')) (split_at ''}%'' (drop 8 s))"
proof -
  have "s = ''include('' @ drop 8 s"
    using assms by (metis append_take_drop_id)
  then obtain r where s: "s = ''include('' @ r" and r: "r = drop 8 s" by blast
  show ?thesis
    unfolding r[symmetric] unfolding s
    by (cases "split_at ''}%'' r") (auto simp: apfst_def map_prod_def)
qed

lemma scan_code_split_async:
  "scan True sd ''}%'' False s =
    (case split_at ''}%'' s of
       None \<Rightarrow> (False, await_rewrite s)
     | Some (b, r) \<Rightarrow> apsnd ((@) (await_rewrite b @ ''write('' @ [squote])) (scan True sd ''}%'' True r))"
proof (induction s rule: await_rewrite.induct)
  case 1
  then show ?case by simp
next
  case (2 c cs)
  show ?case
  proof (cases "take 8 (c # cs) = ''include(''")
    case True
    have sp: "split_at ''}%'' (c # cs) = map_option (apfst ((@) ''include('')) (split_at ''}%'' (drop 7 cs))"
      using split_at_skip_include[OF True] by simp
    have sc: "scan True sd ''}%'' False (c # cs) = apsnd ((@) ''await include('') (scan True sd ''}%'' False (drop 7 cs))"
      using True by simp
    have aw: "await_rewrite (c # cs) = ''await include('' @ await_rewrite (drop 7 cs)"
      using True by simp
    show ?thesis
      unfolding sp sc aw "2.IH"(1)[OF True]
      by (cases "split_at ''}%'' (drop 7 cs)") (auto simp: apsnd_def map_prod_def split_beta apfst_def)
  next
    case False
    show ?thesis
    proof (cases "take 2 (c # cs) = ''}%''")
      case True
      then have p: "prefix ''}%'' (c # cs)" using take2_prefix[of "''}%''" "c # cs"] by simp
      have "c = CHR ''}''" using True by auto
      then have nf: "take 8 (c # cs) \<noteq> ''include(''" by auto
      have sc: "scan True sd ''}%'' False (c # cs) = apsnd ((@) (''write('' @ [squote])) (scan True sd ''}%'' True (drop 1 cs))"
        using True nf by simp
      have sp: "split_at ''}%'' (c # cs) = Some ([], drop 1 cs)"
        using p by simp
      show ?thesis unfolding sc sp by simp
    next
      case F2: False
      have "(take 2 (c # cs) = ''}%'') = (''}%'' \<noteq> [] \<and> prefix ''}%'' (c # cs))"
        by (rule take2_prefix) simp
      with F2 have p: "\<not> prefix ''}%'' (c # cs)" by blast
      have sc: "scan True sd ''}%'' False (c # cs) = apsnd ((@) [c]) (scan True sd ''}%'' False cs)"
        using False F2 by auto
      have sp: "split_at ''}%'' (c # cs) = map_option (apfst ((#) c)) (split_at ''}%'' cs)"
        using p by auto
      have aw: "await_rewrite (c # cs) = c # await_rewrite cs" using False by simp
      have awb: "await_rewrite (c # b) = c # await_rewrite b" if "split_at ''}%'' cs = Some (b, r)" for b r
      proof -
        have "cs = b @ ''}%'' @ r" using that by (rule split_at_Some)
        then have "take 8 (c # cs) = take 8 (c # b) @ take (8 - length (c # b)) (''}%'' @ r)"
          by simp
        show ?thesis
        proof (cases "take 8 (c # b) = ''include(''")
          case True
          then have "length (take 8 (c # b)) = 8" by simp
          then have "8 \<le> length (c # b)" by simp
          then have "take 8 (c # cs) = take 8 (c # b)"
            using \<open>cs = b @ ''}%'' @ r\<close> by simp
          with True False show ?thesis by simp
        next
          case False
          then show ?thesis by simp
        qed
      qed
      show ?thesis
        unfolding sc sp aw "2.IH"(2)[OF False]
        by (cases "split_at ''}%'' cs") (auto simp: apsnd_def map_prod_def split_beta apfst_def awb simp del: await_rewrite.simps)
    qed
  qed
qed


lemma scan_segments:
  assumes W: "\<And>s. scan a sd ed True s =
      (case split_at sd s of
         None \<Rightarrow> (True, escape_text s)
       | Some (b, r) \<Rightarrow> apsnd ((@) (escape_text b @ [squote] @ '');'')) (scan a sd ed False r))"
    and C: "\<And>s. scan a sd ed False s =
      (case split_at ed s of
         None \<Rightarrow> (False, if a then await_rewrite s else s)
       | Some (b, r) \<Rightarrow> apsnd ((@) ((if a then await_rewrite b else b) @ ''write('' @ [squote])) (scan a sd ed True r))"
  shows "fst (scan a sd ed (\<not> inCode) s) = (\<not> is_Code (last (segments sd ed inCode s))) \<and>
         (fst (scan a sd ed (\<not> inCode) s) \<longrightarrow>
            (if inCode then [squote] @ '');'' else []) @ snd (scan a sd ed (\<not> inCode) s)
              = concat (map (render a) (segments sd ed inCode s)))"
  using assms
proof (induction sd ed inCode s rule: segments.induct)
  case (1 sd ed inCode s)
  note W = "1.prems"(1) and C = "1.prems"(2)
  show ?case
  proof (cases inCode)
    case True
    show ?thesis
    proof (cases "split_at ed s")
      case None
      have "scan a sd ed False s = (False, if a then await_rewrite s else s)"
        by (subst C) (simp add: None)
      then have "fst (scan a sd ed False s) = False" by simp
      then show ?thesis using True None by (simp add: segments.simps[of sd ed True s])
    next
      case (Some x)
      obtain b r where x: "x = (b, r)" by (cases x)
      have IH: "fst (scan a sd ed (\<not> False) r) = (\<not> is_Code (last (segments sd ed False r))) \<and>
         (fst (scan a sd ed (\<not> False) r) \<longrightarrow>
            (if False then [squote] @ '');'' else []) @ snd (scan a sd ed (\<not> False) r)
              = concat (map (render a) (segments sd ed False r)))"
        using "1.IH"(1)[OF True Some x[symmetric] "1.prems"] .
      have ne: "segments sd ed False r \<noteq> []"
        by (subst segments.simps) (simp split: option.split prod.split)
      show ?thesis
        using True Some x C[of s] IH ne
        by (simp add: segments.simps[of sd ed True s] apsnd_def map_prod_def split_beta)
    qed
  next
    case False
    show ?thesis
    proof (cases "split_at sd s")
      case None
      have "scan a sd ed True s = (True, escape_text s)"
        by (subst W) (simp add: None)
      then show ?thesis using False None by (simp add: segments.simps[of sd ed False s])
    next
      case (Some x)
      obtain b r where x: "x = (b, r)" by (cases x)
      have IH: "fst (scan a sd ed (\<not> True) r) = (\<not> is_Code (last (segments sd ed True r))) \<and>
         (fst (scan a sd ed (\<not> True) r) \<longrightarrow>
            (if True then [squote] @ '');'' else []) @ snd (scan a sd ed (\<not> True) r)
              = concat (map (render a) (segments sd ed True r)))"
        using "1.IH"(2)[OF False Some x[symmetric] "1.prems"] .
      have ne: "segments sd ed True r \<noteq> []"
        by (subst segments.simps) (simp split: option.split prod.split)
      show ?thesis
        using False Some x W[of s] IH ne
        by (simp add: segments.simps[of sd ed False s] apsnd_def map_prod_def split_beta)
    qed
  qed
qed

lemma makeRun_scan:
  "makeRun t a sd ed =
    (if \<not> fst (scan a sd ed True t) then Inl (Error unpaired_message)
     else Inr (run_prologue @ snd (scan a sd ed True t) @ [squote] @ '');''))"
  using makeRun_loop_scan[of t a sd ed initial_state]
  by (simp add: makeRun_def Let_def initial_state_def)

lemma makeRun_refines_sync:
  assumes "length sd = 2" "length ed = 2"
  shows "makeRun t False sd ed = spec_transpile t False sd ed"
proof -
  have "fst (scan False sd ed (\<not> False) t) = (\<not> is_Code (last (segments sd ed False t))) \<and>
         (fst (scan False sd ed (\<not> False) t) \<longrightarrow>
            (if False then [squote] @ '');'' else []) @ snd (scan False sd ed (\<not> False) t)
              = concat (map (render False) (segments sd ed False t)))"
    by (rule scan_segments) (simp_all add: scan_write_split[OF assms(1)] scan_code_split_sync[OF assms(2)] split: option.split)
  then show ?thesis
    by (auto simp: makeRun_scan spec_transpile_def Let_def)
qed

lemma makeRun_refines_async:
  "makeRun t True ''%{'' ''}%'' = spec_transpile t True ''%{'' ''}%''"
proof -
  have "fst (scan True ''%{'' ''}%'' (\<not> False) t) = (\<not> is_Code (last (segments ''%{'' ''}%'' False t))) \<and>
         (fst (scan True ''%{'' ''}%'' (\<not> False) t) \<longrightarrow>
            (if False then [squote] @ '');'' else []) @ snd (scan True ''%{'' ''}%'' (\<not> False) t)
              = concat (map (render True) (segments ''%{'' ''}%'' False t)))"
    by (rule scan_segments) (simp_all add: scan_write_split[of "''%{''"] scan_code_split_async split: option.split)
  then show ?thesis
    by (auto simp: makeRun_scan spec_transpile_def Let_def)
qed


lemma await_rewrite_id: "\<not> sublist ''include('' s \<Longrightarrow> await_rewrite s = s"
proof (induction s rule: await_rewrite.induct)
  case 1
  then show ?case by simp
next
  case (2 c cs)
  have np: "take 8 (c # cs) \<noteq> ''include(''"
  proof
    assume "take 8 (c # cs) = ''include(''"
    then have "prefix ''include('' (c # cs)" by (metis take_is_prefix)
    then have "sublist ''include('' (c # cs)" by (rule prefix_imp_sublist)
    with "2.prems" show False by simp
  qed
  have "sublist ''include('' cs \<Longrightarrow> sublist ''include('' (c # cs)"
    by (rule sublist_Cons_right[THEN iffD2]) (rule disjI2)
  with "2.prems" have "\<not> sublist ''include('' cs"
    by (iprover intro: notI elim: notE)
  then have "await_rewrite cs = cs" by (rule "2.IH"(2)[OF np])
  moreover have "await_rewrite (c # cs) = c # await_rewrite cs"
    using np by (simp only: await_rewrite.simps if_False)
  ultimately show ?case by (simp only:)
qed

subsection \<open>Termination and the end of the input\<close>

lemma loop_body_pos_advances: "pos st < pos (loop_body t a sd ed st)"
  by (simp add: loop_body_def Let_def)

lemma makeRun_loop_iterations:
  "\<exists>n \<le> length t - pos st.
     makeRun_loop t a sd ed st = (loop_body t a sd ed ^^ n) st \<and>
     length t \<le> pos ((loop_body t a sd ed ^^ n) st) \<and>
     (\<forall>k<n. pos ((loop_body t a sd ed ^^ k) st) < length t)"
proof (induction t a sd ed st rule: makeRun_loop.induct)
  case (1 t a sd ed st)
  show ?case
  proof (cases "pos st < length t")
    case False
    then have "makeRun_loop t a sd ed st = (loop_body t a sd ed ^^ 0) st"
      by (simp add: makeRun_loop.simps)
    moreover have "length t \<le> pos ((loop_body t a sd ed ^^ 0) st)"
      using False by simp
    ultimately show ?thesis by blast
  next
    case True
    let ?f = "loop_body t a sd ed"
    from "1.IH"[OF True] obtain n where
      n: "n \<le> length t - pos (?f st)"
         "makeRun_loop t a sd ed (?f st) = (?f ^^ n) (?f st)"
         "length t \<le> pos ((?f ^^ n) (?f st))"
         "\<forall>k<n. pos ((?f ^^ k) (?f st)) < length t"
      by blast
    have adv: "pos st < pos (?f st)" by (rule loop_body_pos_advances)
    have a: "Suc n \<le> length t - pos st" using n(1) adv True by arith
    have b: "makeRun_loop t a sd ed st = (?f ^^ Suc n) st"
      using True n(2) by (subst makeRun_loop.simps) (simp add: funpow_swap1)
    have c: "length t \<le> pos ((?f ^^ Suc n) st)"
      using n(3) by (simp add: funpow_swap1)
    have d: "\<forall>k<Suc n. pos ((?f ^^ k) st) < length t"
    proof (intro allI impI)
      fix k assume "k < Suc n"
      show "pos ((?f ^^ k) st) < length t"
      proof (cases k)
        case 0
        then show ?thesis using True by simp
      next
        case (Suc j)
        then have "j < n" using \<open>k < Suc n\<close> by simp
        then show ?thesis using n(4) Suc by (simp add: funpow_swap1)
      qed
    qed
    from a b c d show ?thesis by blast
  qed
qed

lemma loop_body_last_write:
  assumes "t \<noteq> []" "sd \<noteq> [last t]" "inWrite st" "pos st = length t - 1"
  shows "loop_body t a sd ed st = \<lparr>pos = length t, inWrite = True, run = run st @ escape_char (last t)\<rparr>"
proof -
  have i: "pos st < length t" using assms by simp
  have l: "t ! pos st = last t" using assms by (simp add: last_conv_nth)
  have "drop (pos st) t = [last t]"
    using assms i l by (metis Cons_nth_drop_Suc Suc_diff_1 drop_all length_greater_0_conv order_refl)
  then have s: "substr t (pos st) 2 = [last t]" by (simp add: substr_def)
  have c: "char_at t (pos st) = Some (last t)" using i l by (simp add: char_at_def)
  show ?thesis
    using assms(2,3,4) i s c by (auto simp: loop_body_def Let_def)
qed

lemma loop_body_last_code:
  assumes "t \<noteq> []" "ed \<noteq> [last t]" "\<not> inWrite st" "pos st = length t - 1"
  shows "loop_body t a sd ed st = \<lparr>pos = length t, inWrite = False, run = run st @ [last t]\<rparr>"
proof -
  have i: "pos st < length t" using assms by simp
  have l: "t ! pos st = last t" using assms by (simp add: last_conv_nth)
  have d: "drop (pos st) t = [last t]"
    using assms i l by (metis Cons_nth_drop_Suc Suc_diff_1 drop_all length_greater_0_conv order_refl)
  then have s: "substr t (pos st) 2 = [last t]" by (simp add: substr_def)
  have s8: "substr t (pos st) 8 = [last t]" using d by (simp add: substr_def)
  have c: "char_at t (pos st) = Some (last t)" using i l by (simp add: char_at_def)
  show ?thesis
    using assms(2,3,4) i s s8 c by (auto simp: loop_body_def Let_def)
qed

text \<open>
  Claim C10. For every template and every delimiter pair the loop of \<open>makeRun\<close> stops
  after at most as many iterations as the template has characters, and every iteration
  reads \<open>template[i]\<close> inside the template. At the final position a character that is
  not by itself the whole delimiter is an ordinary character: in a literal it is emitted
  under the escaping rules, in code it is copied.
\<close>

theorem makeRun_terminates_within_input:
  "(\<exists>n \<le> length t.
      makeRun_loop t a sd ed initial_state = (loop_body t a sd ed ^^ n) initial_state \<and>
      length t \<le> pos ((loop_body t a sd ed ^^ n) initial_state) \<and>
      (\<forall>k<n. char_at t (pos ((loop_body t a sd ed ^^ k) initial_state)) \<noteq> None)) \<and>
   (t \<noteq> [] \<and> pos st = length t - 1 \<and> inWrite st \<and> sd \<noteq> [last t] \<longrightarrow>
      loop_body t a sd ed st = \<lparr>pos = length t, inWrite = True, run = run st @ escape_char (last t)\<rparr>) \<and>
   (t \<noteq> [] \<and> pos st = length t - 1 \<and> \<not> inWrite st \<and> ed \<noteq> [last t] \<longrightarrow>
      loop_body t a sd ed st = \<lparr>pos = length t, inWrite = False, run = run st @ [last t]\<rparr>)"
proof -
  obtain n where n: "n \<le> length t - pos initial_state"
      "makeRun_loop t a sd ed initial_state = (loop_body t a sd ed ^^ n) initial_state"
      "length t \<le> pos ((loop_body t a sd ed ^^ n) initial_state)"
      "\<forall>k<n. pos ((loop_body t a sd ed ^^ k) initial_state) < length t"
    using makeRun_loop_iterations[of t initial_state a sd ed] by blast
  have "n \<le> length t" using n(1) by simp
  moreover have "\<forall>k<n. char_at t (pos ((loop_body t a sd ed ^^ k) initial_state)) \<noteq> None"
    using n(4) by (simp add: char_at_def)
  ultimately have A: "\<exists>n \<le> length t.
      makeRun_loop t a sd ed initial_state = (loop_body t a sd ed ^^ n) initial_state \<and>
      length t \<le> pos ((loop_body t a sd ed ^^ n) initial_state) \<and>
      (\<forall>k<n. char_at t (pos ((loop_body t a sd ed ^^ k) initial_state)) \<noteq> None)"
    using n(2,3) by blast
  show ?thesis
    using A loop_body_last_write[of t sd st a ed] loop_body_last_code[of t ed st a sd] by blast
qed

text \<open>The lone \<open>%\<close> at the end of \<open>abc%\<close> is written as a literal character.\<close>

theorem makeRun_terminates_within_input_witness:
  "makeRun ''abc%'' False ''%{'' ''}%'' = Inr (run_prologue @ ''abc%'' @ [squote] @ '');'') \<and>
   loop_body ''abc%'' False ''%{'' ''}%'' \<lparr>pos = 3, inWrite = True, run = ''abc''\<rparr>
     = \<lparr>pos = 4, inWrite = True, run = ''abc%''\<rparr> \<and>
   loop_body ''%{x'' False ''%{'' ''}%'' \<lparr>pos = 2, inWrite = False, run = []\<rparr>
     = \<lparr>pos = 3, inWrite = False, run = ''x''\<rparr> \<and>
   (\<exists>n \<le> length ''abc%''. length ''abc%'' \<le> pos ((loop_body ''abc%'' False ''%{'' ''}%'' ^^ n) initial_state))"
proof -
  have run: "makeRun ''abc%'' False ''%{'' ''}%'' = Inr (run_prologue @ ''abc%'' @ [squote] @ '');'')"
    by (simp add: makeRun_def makeRun_loop.simps loop_body_def substr_def char_at_def initial_state_def)
  have w: "loop_body ''abc%'' False ''%{'' ''}%'' \<lparr>pos = 3, inWrite = True, run = ''abc''\<rparr>
     = \<lparr>pos = 4, inWrite = True, run = ''abc%''\<rparr>"
    using makeRun_terminates_within_input[of "''abc%''" False "''%{''" "''}%''" "\<lparr>pos = 3, inWrite = True, run = ''abc''\<rparr>"]
    by simp
  have c: "loop_body ''%{x'' False ''%{'' ''}%'' \<lparr>pos = 2, inWrite = False, run = []\<rparr>
     = \<lparr>pos = 3, inWrite = False, run = ''x''\<rparr>"
    using makeRun_terminates_within_input[of "''%{x''" False "''%{''" "''}%''" "\<lparr>pos = 2, inWrite = False, run = []\<rparr>"]
    by simp
  have t: "\<exists>n \<le> length ''abc%''. length ''abc%'' \<le> pos ((loop_body ''abc%'' False ''%{'' ''}%'' ^^ n) initial_state)"
    using makeRun_terminates_within_input[of "''abc%''" False "''%{''" "''}%''" "\<lparr>pos = 3, inWrite = True, run = ''abc''\<rparr>"]
    by (elim conjE exE) (intro exI conjI, assumption+)
  from run w c t show ?thesis by (simp only: simp_thms)
qed

subsection \<open>Escaping of literal text\<close>

lemma loop_body_literal_char:
  assumes "inWrite st" "pos st < length t" "substr t (pos st) 2 \<noteq> sd"
  shows "loop_body t a sd ed st =
           \<lparr>pos = pos st + 1, inWrite = True, run = run st @ escape_char (t ! pos st)\<rparr>"
  using assms by (simp add: loop_body_def Let_def char_at_def)

lemma scan_literal_only:
  "(\<forall>i<length t. substr t i 2 \<noteq> sd) \<Longrightarrow> scan a sd ed True t = (True, escape_text t)"
proof (induction t)
  case Nil
  then show ?case by (simp add: escape_text_def)
next
  case (Cons c cs)
  have "substr (c # cs) 0 2 \<noteq> sd" using Cons.prems by auto
  then have n: "take 2 (c # cs) \<noteq> sd" by (simp add: substr_def)
  have "\<forall>i<length cs. substr cs i 2 \<noteq> sd"
  proof (intro allI impI)
    fix i assume "i < length cs"
    then have "substr (c # cs) (Suc i) 2 \<noteq> sd" using Cons.prems by auto
    then show "substr cs i 2 \<noteq> sd" by (simp add: substr_def)
  qed
  then have "scan a sd ed True cs = (True, escape_text cs)" by (rule Cons.IH)
  then show ?case using n by (simp add: escape_text_def)
qed

lemma makeRun_literal_only:
  assumes "\<forall>i<length t. substr t i 2 \<noteq> sd"
  shows "makeRun t a sd ed = Inr (run_prologue @ escape_text t @ [squote] @ '');'')"
  using scan_literal_only[OF assms, of a ed] by (simp add: makeRun_scan)

text \<open>
  Claim C3. In WRITE state every character that does not start the delimiter is
  appended under the escaping rules: backslash and single quote get a backslash in
  front, carriage return becomes backslash-r, newline becomes backslash-n followed by a
  backslash and an actual line break, every other character is copied. Evaluating the
  escaped text as the body of a single-quoted string literal gives back the original
  text, and a template without a start delimiter compiles to one write call on its
  escaped text.
\<close>

theorem literal_escaping_roundtrip:
  "(inWrite st \<and> pos st < length t \<and> substr t (pos st) 2 \<noteq> sd \<longrightarrow>
      loop_body t a sd ed st =
        \<lparr>pos = pos st + 1, inWrite = True, run = run st @ escape_char (t ! pos st)\<rparr>) \<and>
   escape_char bslash = [bslash, bslash] \<and>
   escape_char squote = [bslash, squote] \<and>
   escape_char CR = [bslash, CHR ''r''] \<and>
   escape_char LF = [bslash, CHR ''n'', bslash, LF] \<and>
   (c \<noteq> bslash \<and> c \<noteq> squote \<and> c \<noteq> CR \<and> c \<noteq> LF \<longrightarrow> escape_char c = [c]) \<and>
   js_string_value (escape_text s) = Some s \<and>
   ((\<forall>i<length t. substr t i 2 \<noteq> sd) \<longrightarrow>
      makeRun t a sd ed = Inr (run_prologue @ escape_text t @ [squote] @ '');'')) \<and>
   makeRun t a ''%{'' ''}%'' = spec_transpile t a ''%{'' ''}%''"
proof -
  have r: "makeRun t a ''%{'' ''}%'' = spec_transpile t a ''%{'' ''}%''"
    by (cases a) (simp_all add: makeRun_refines_async makeRun_refines_sync)
  show ?thesis
    using loop_body_literal_char[of st t sd a ed] makeRun_literal_only[of t sd a ed]
      escape_roundtrip[of s] r
    by simp
qed

text \<open>A literal of backslash, single quote, carriage return, newline and a letter.\<close>

theorem literal_escaping_roundtrip_witness:
  "makeRun [bslash, squote, CR, LF, CHR ''a''] False ''%{'' ''}%''
     = Inr (run_prologue @ [bslash, bslash, bslash, squote, bslash, CHR ''r'', bslash, CHR ''n'', bslash, LF, CHR ''a'']
            @ [squote] @ '');'') \<and>
   js_string_value [bslash, bslash, bslash, squote, bslash, CHR ''r'', bslash, CHR ''n'', bslash, LF, CHR ''a'']
     = Some [bslash, squote, CR, LF, CHR ''a''] \<and>
   loop_body [bslash, squote, CR, LF, CHR ''a''] False ''%{'' ''}%'' \<lparr>pos = 3, inWrite = True, run = []\<rparr>
     = \<lparr>pos = 4, inWrite = True, run = [bslash, CHR ''n'', bslash, LF]\<rparr> \<and>
   escape_char (CHR ''a'') = ''a''"
proof -
  let ?t = "[bslash, squote, CR, LF, CHR ''a'']"
  have h: "\<forall>i<length ?t. substr ?t i 2 \<noteq> ''%{''"
    by (simp add: substr_def All_less_Suc)
  have e: "escape_text ?t = [bslash, bslash, bslash, squote, bslash, CHR ''r'', bslash, CHR ''n'', bslash, LF, CHR ''a'']"
    by (simp add: escape_text_def)
  note th = literal_escaping_roundtrip[of "\<lparr>pos = 3, inWrite = True, run = []\<rparr>" ?t "''%{''" False "''}%''" "CHR ''a''" ?t]
  show ?thesis
    using th h e by (simp add: substr_def)
qed

subsection \<open>The suspending transpilation against the blocking one\<close>

lemma loop_body_include_rewrite:
  assumes "\<not> inWrite st" "substr t (pos st) 8 = ''include(''"
  shows "loop_body t True sd ed st =
           \<lparr>pos = pos st + 8, inWrite = False, run = run st @ ''await include(''\<rparr>"
  using assms by (simp add: loop_body_def Let_def)

lemma loop_body_async_same:
  assumes "inWrite st \<or> substr t (pos st) 8 \<noteq> ''include(''"
  shows "loop_body t True sd ed st = loop_body t False sd ed st"
  using assms by (auto simp add: loop_body_def Let_def)

lemma render_no_include:
  "\<forall>s \<in> set (code_sections segs). \<not> sublist ''include('' s \<Longrightarrow>
   map (render True) segs = map (render False) segs"
proof (induction segs rule: code_sections.induct)
  case 1
  then show ?case by simp
next
  case (2 s segs)
  then have "await_rewrite s = s" by (simp add: await_rewrite_id)
  with 2 show ?case by simp
next
  case (3 s segs)
  then show ?case by simp
qed

lemma makeRun_async_eq_sync:
  assumes "\<forall>s \<in> set (code_sections (segments ''%{'' ''}%'' False t)). \<not> sublist ''include('' s"
  shows "makeRun t True ''%{'' ''}%'' = makeRun t False ''%{'' ''}%''"
proof -
  have "map (render True) (segments ''%{'' ''}%'' False t) = map (render False) (segments ''%{'' ''}%'' False t)"
    using assms by (rule render_no_include)
  then have "spec_transpile t True ''%{'' ''}%'' = spec_transpile t False ''%{'' ''}%''"
    unfolding spec_transpile_def Let_def by (simp only:)
  then show ?thesis
    by (simp only: makeRun_refines_async makeRun_refines_sync[of "''%{''" "''}%''", simplified])
qed

text \<open>
  Claim C8. With \<open>asyncMode\<close> set, an iteration in CODE state that finds
  \<open>include(\<close> at the current position appends \<open>await include(\<close> and advances eight
  characters; every other iteration is the one of the blocking mode. With the default
  delimiters both modes produce the rendering of the template's segments, which differ
  only in the code spans, rewritten by \<open>await_rewrite\<close> in the suspending mode. Hence a
  template whose code spans do not contain \<open>include(\<close> compiles to the same source
  in both modes.
\<close>

theorem async_differs_only_by_include_rewrite:
  "(\<not> inWrite st \<and> substr t (pos st) 8 = ''include('' \<longrightarrow>
      loop_body t True sd ed st =
        \<lparr>pos = pos st + 8, inWrite = False, run = run st @ ''await include(''\<rparr>) \<and>
   (inWrite st \<or> substr t (pos st) 8 \<noteq> ''include('' \<longrightarrow>
      loop_body t True sd ed st = loop_body t False sd ed st) \<and>
   makeRun t True ''%{'' ''}%'' = spec_transpile t True ''%{'' ''}%'' \<and>
   makeRun t False ''%{'' ''}%'' = spec_transpile t False ''%{'' ''}%'' \<and>
   ((\<forall>s \<in> set (code_sections (segments ''%{'' ''}%'' False t)). \<not> sublist ''include('' s) \<longrightarrow>
      makeRun t True ''%{'' ''}%'' = makeRun t False ''%{'' ''}%'')"
  using loop_body_include_rewrite[of st t sd ed] loop_body_async_same[of st t sd ed]
    makeRun_async_eq_sync[of t]
  by (simp add: makeRun_refines_async makeRun_refines_sync)

lemma segments_tpl_no_include:
  "segments ''%{'' ''}%'' False tpl_no_include = [Literal ''include(x) '', Code '' inc(1); '', Literal '' b'']"
  by (simp add: tpl_no_include_def segments.simps)

text \<open>A template with \<open>include(\<close> in its literal text only compiles alike in both
  modes; one with \<open>include(\<close> in its code gets the rewrite at position 5.\<close>

theorem async_differs_only_by_include_rewrite_witness:
  "makeRun tpl_no_include True ''%{'' ''}%'' = makeRun tpl_no_include False ''%{'' ''}%'' \<and>
   code_sections (segments ''%{'' ''}%'' False tpl_no_include) = ['' inc(1); ''] \<and>
   loop_body tpl_include True ''%{'' ''}%'' \<lparr>pos = 5, inWrite = False, run = []\<rparr>
     = \<lparr>pos = 13, inWrite = False, run = ''await include(''\<rparr> \<and>
   loop_body tpl_include True ''%{'' ''}%'' \<lparr>pos = 4, inWrite = False, run = []\<rparr>
     = loop_body tpl_include False ''%{'' ''}%'' \<lparr>pos = 4, inWrite = False, run = []\<rparr>"
proof -
  have h: "\<forall>s \<in> set (code_sections (segments ''%{'' ''}%'' False tpl_no_include)). \<not> sublist ''include('' s"
    unfolding segments_tpl_no_include by (simp add: sublist_Cons_right)
  have "(\<forall>s \<in> set (code_sections (segments ''%{'' ''}%'' False tpl_no_include)). \<not> sublist ''include('' s) \<longrightarrow>
      makeRun tpl_no_include True ''%{'' ''}%'' = makeRun tpl_no_include False ''%{'' ''}%''"
    using async_differs_only_by_include_rewrite[of "\<lparr>pos = 5, inWrite = False, run = []\<rparr>" tpl_no_include "''%{''" "''}%''"]
    by (elim conjE)
  from this h have 1: "makeRun tpl_no_include True ''%{'' ''}%'' = makeRun tpl_no_include False ''%{'' ''}%''"
    by (rule mp)
  have 2: "loop_body tpl_include True ''%{'' ''}%'' \<lparr>pos = 5, inWrite = False, run = []\<rparr>
     = \<lparr>pos = 13, inWrite = False, run = ''await include(''\<rparr>"
    using async_differs_only_by_include_rewrite[of "\<lparr>pos = 5, inWrite = False, run = []\<rparr>" tpl_include "''%{''" "''}%''"]
    by (simp add: tpl_include_def substr_def)
  have 3: "loop_body tpl_include True ''%{'' ''}%'' \<lparr>pos = 4, inWrite = False, run = []\<rparr>
     = loop_body tpl_include False ''%{'' ''}%'' \<lparr>pos = 4, inWrite = False, run = []\<rparr>"
    using async_differs_only_by_include_rewrite[of "\<lparr>pos = 4, inWrite = False, run = []\<rparr>" tpl_include "''%{''" "''}%''"]
    by (simp add: tpl_include_def substr_def)
  from 1 2 3 show ?thesis by (simp add: segments_tpl_no_include)
qed

subsection \<open>Delimiters that are not two characters long\<close>

text \<open>
  Claim C6. The scanner compares the two characters \<open>substr(i, 2)\<close> with the
  delimiter, whatever the delimiter's length. With the three-character delimiters
  \<open>{{{\<close> and \<open>}}}\<close> the template \<open>a{{{ x }}}b\<close> has the start delimiter at
  position 1, yet the iteration there stays in WRITE state, emits one brace and advances
  one character, and the whole template is compiled as literal text, where the segment
  view has a code span. One-character delimiters fare alike: \<open>a{ x }b\<close> with \<open>{\<close> and
  \<open>}\<close> is compiled as literal text.
\<close>

theorem three_char_delimiters_not_matched:
  "prefix ''{{{'' (drop 1 ''a{{{ x }}}b'') \<and>
   loop_body ''a{{{ x }}}b'' False ''{{{'' ''}}}'' \<lparr>pos = 1, inWrite = True, run = r\<rparr>
     = \<lparr>pos = 2, inWrite = True, run = r @ ''{''\<rparr> \<and>
   makeRun ''a{{{ x }}}b'' False ''{{{'' ''}}}''
     = Inr (run_prologue @ ''a{{{ x }}}b'' @ [squote] @ '');'') \<and>
   spec_transpile ''a{{{ x }}}b'' False ''{{{'' ''}}}''
     = Inr (run_prologue @ ''a'' @ [squote] @ '');'' @ '' x '' @ ''write('' @ [squote] @ ''b'' @ [squote] @ '');'') \<and>
   makeRun ''a{ x }b'' False ''{'' ''}''
     = Inr (run_prologue @ ''a{ x }b'' @ [squote] @ '');'')"
  by (simp add: loop_body_def substr_def char_at_def makeRun_scan spec_transpile_def segments.simps escape_text_def)

section \<open>Properties of the context builder and the include resolver\<close>

lemma build_args_sync_names:
  "fst (build_args_sync dict dirname) =
     map fst dict @ (if has_key dict ''require'' then [] else [''require''])
                  @ (if has_key dict ''include'' then [] else [''include''])"
  by (simp add: build_args_sync_def Let_def)

lemma build_args_sync_values:
  "snd (build_args_sync dict dirname) =
     map (obj_get dict) (map fst dict)
       @ (if has_key dict ''require'' then [] else [RequireClosure False dirname])
       @ (if has_key dict ''include'' then [] else [IncludeSyncClosure dirname dict])"
  by (simp add: build_args_sync_def Let_def)

lemma build_args_async_names:
  "fst (build_args_async dict dirname) =
     map fst dict @ (if has_key dict ''require'' then [] else [''require''])
                  @ (if has_key dict ''include'' then [] else [''include''])"
  by (simp add: build_args_async_def Let_def)

lemma build_args_async_values:
  "snd (build_args_async dict dirname) =
     map (obj_get dict) (map fst dict)
       @ (if has_key dict ''require'' then [] else [RequireClosure True dirname])
       @ (if has_key dict ''include'' then [] else [IncludeClosure dirname dict])"
  by (simp add: build_args_async_def Let_def)

lemma bind_params_same_length:
  "length names = length vals \<Longrightarrow> bind_params names vals = zip names vals"
  by (simp add: bind_params_def)

lemma obj_get_distinct:
  "distinct (map fst dict) \<Longrightarrow> i < length dict \<Longrightarrow> obj_get dict (fst (dict ! i)) = snd (dict ! i)"
proof -
  assume d: "distinct (map fst dict)" and i: "i < length dict"
  have "dict ! i \<in> set dict" using i by simp
  then have "(fst (dict ! i), snd (dict ! i)) \<in> set dict" by simp
  then have "map_of dict (fst (dict ! i)) = Some (snd (dict ! i))"
    using d by (rule map_of_is_SomeI[rotated])
  then show ?thesis by (simp add: obj_get_def)
qed

lemma includeSync_constructs:
  assumes "typeof (obj_get dict ''write'') = ''function''"
    and "readFile h fp = Inr template"
    and "makeRun template False (option_or options ''startDelim'' ''%{'') (option_or options ''endDelim'' ''}%'') = Inr src"
    and "construct h False (fst (build_args_sync dict (resolve_dirname h fp))) src = Inr func"
  shows "includeSync (Suc n) h fp (JObject dict) options =
           then_events
             [FileRead fp,
              Constructed (fst (build_args_sync dict (resolve_dirname h fp)) @ [src]),
              Applied (snd (build_args_sync dict (resolve_dirname h fp)))]
             (exec_sync n h
                (zip (fst (build_args_sync dict (resolve_dirname h fp))) (snd (build_args_sync dict (resolve_dirname h fp))))
                (func (zip (fst (build_args_sync dict (resolve_dirname h fp))) (snd (build_args_sync dict (resolve_dirname h fp))))))"
proof -
  have l: "length (fst (build_args_sync dict (resolve_dirname h fp))) = length (snd (build_args_sync dict (resolve_dirname h fp)))"
    by (simp add: build_args_sync_names build_args_sync_values)
  show ?thesis
    using assms by (simp add: bind_params_same_length[OF l])
qed

lemma include_try_constructs:
  assumes "typeof (obj_get dict ''write'') = ''function''"
    and "readFile h fp = Inr template"
    and "makeRun template True ''%{'' ''}%'' = Inr src"
    and "construct h True (fst (build_args_async dict (resolve_dirname h fp))) src = Inr func"
  shows "include_try (Suc n) h fp (JObject dict) =
           then_events
             [FileRead fp,
              Constructed (fst (build_args_async dict (resolve_dirname h fp)) @ [src]),
              Applied (snd (build_args_async dict (resolve_dirname h fp)))]
             (exec_async n h
                (zip (fst (build_args_async dict (resolve_dirname h fp))) (snd (build_args_async dict (resolve_dirname h fp))))
                (func (zip (fst (build_args_async dict (resolve_dirname h fp))) (snd (build_args_async dict (resolve_dirname h fp))))))"
proof -
  have l: "length (fst (build_args_async dict (resolve_dirname h fp))) = length (snd (build_args_async dict (resolve_dirname h fp)))"
    by (simp add: build_args_async_names build_args_async_values)
  show ?thesis
    using assms by (simp add: bind_params_same_length[OF l])
qed

text \<open>
  Claim C9. For every caller context the parameter names are the caller's keys in
  their order, then \<open>require\<close> if the context has none, then \<open>include\<close> if it has
  none; the argument values are the values of those keys and the injected closures, in
  the same positions, so both lists have the same length and invocation binds each name
  to the value at its position. Both drivers construct the procedure from exactly these
  names (followed by the body) and apply it to exactly these values.
\<close>

theorem parameters_and_arguments_correspond:
  "fst (build_args_sync dict dirname) =
     map fst dict @ (if has_key dict ''require'' then [] else [''require''])
                  @ (if has_key dict ''include'' then [] else [''include'']) \<and>
   snd (build_args_sync dict dirname) =
     map (obj_get dict) (map fst dict)
       @ (if has_key dict ''require'' then [] else [RequireClosure False dirname])
       @ (if has_key dict ''include'' then [] else [IncludeSyncClosure dirname dict]) \<and>
   fst (build_args_async dict dirname) = fst (build_args_sync dict dirname) \<and>
   snd (build_args_async dict dirname) =
     map (obj_get dict) (map fst dict)
       @ (if has_key dict ''require'' then [] else [RequireClosure True dirname])
       @ (if has_key dict ''include'' then [] else [IncludeClosure dirname dict]) \<and>
   length (fst (build_args_sync dict dirname)) = length (snd (build_args_sync dict dirname)) \<and>
   length (fst (build_args_async dict dirname)) = length (snd (build_args_async dict dirname)) \<and>
   bind_params (fst (build_args_sync dict dirname)) (snd (build_args_sync dict dirname))
     = zip (fst (build_args_sync dict dirname)) (snd (build_args_sync dict dirname)) \<and>
   bind_params (fst (build_args_async dict dirname)) (snd (build_args_async dict dirname))
     = zip (fst (build_args_async dict dirname)) (snd (build_args_async dict dirname)) \<and>
   (distinct (map fst dict) \<longrightarrow>
      (\<forall>i<length dict.
         fst (build_args_sync dict dirname) ! i = fst (dict ! i) \<and>
         snd (build_args_sync dict dirname) ! i = snd (dict ! i) \<and>
         snd (build_args_async dict dirname) ! i = snd (dict ! i))) \<and>
   (typeof (obj_get dict ''write'') = ''function'' \<and> readFile h fp = Inr template \<and>
    makeRun template False (option_or options ''startDelim'' ''%{'') (option_or options ''endDelim'' ''}%'') = Inr src \<and>
    construct h False (fst (build_args_sync dict (resolve_dirname h fp))) src = Inr func \<longrightarrow>
      includeSync (Suc n) h fp (JObject dict) options =
        then_events
          [FileRead fp,
           Constructed (fst (build_args_sync dict (resolve_dirname h fp)) @ [src]),
           Applied (snd (build_args_sync dict (resolve_dirname h fp)))]
          (exec_sync n h
             (zip (fst (build_args_sync dict (resolve_dirname h fp))) (snd (build_args_sync dict (resolve_dirname h fp))))
             (func (zip (fst (build_args_sync dict (resolve_dirname h fp))) (snd (build_args_sync dict (resolve_dirname h fp))))))) \<and>
   (typeof (obj_get dict ''write'') = ''function'' \<and> readFile h fp = Inr template \<and>
    makeRun template True ''%{'' ''}%'' = Inr asrc \<and>
    construct h True (fst (build_args_async dict (resolve_dirname h fp))) asrc = Inr afunc \<longrightarrow>
      include_try (Suc n) h fp (JObject dict) =
        then_events
          [FileRead fp,
           Constructed (fst (build_args_async dict (resolve_dirname h fp)) @ [asrc]),
           Applied (snd (build_args_async dict (resolve_dirname h fp)))]
          (exec_async n h
             (zip (fst (build_args_async dict (resolve_dirname h fp))) (snd (build_args_async dict (resolve_dirname h fp))))
             (afunc (zip (fst (build_args_async dict (resolve_dirname h fp))) (snd (build_args_async dict (resolve_dirname h fp)))))))"
proof -
  have c1: "fst (build_args_sync dict dirname) =
     map fst dict @ (if has_key dict ''require'' then [] else [''require''])
                  @ (if has_key dict ''include'' then [] else [''include''])"
    by (rule build_args_sync_names)
  have c2: "snd (build_args_sync dict dirname) =
     map (obj_get dict) (map fst dict)
       @ (if has_key dict ''require'' then [] else [RequireClosure False dirname])
       @ (if has_key dict ''include'' then [] else [IncludeSyncClosure dirname dict])"
    by (rule build_args_sync_values)
  have c3: "fst (build_args_async dict dirname) = fst (build_args_sync dict dirname)"
    by (simp add: build_args_sync_names build_args_async_names)
  have c4: "snd (build_args_async dict dirname) =
     map (obj_get dict) (map fst dict)
       @ (if has_key dict ''require'' then [] else [RequireClosure True dirname])
       @ (if has_key dict ''include'' then [] else [IncludeClosure dirname dict])"
    by (rule build_args_async_values)
  have c5: "length (fst (build_args_sync dict dirname)) = length (snd (build_args_sync dict dirname))"
    by (simp add: build_args_sync_names build_args_sync_values)
  have c6: "length (fst (build_args_async dict dirname)) = length (snd (build_args_async dict dirname))"
    by (simp add: build_args_async_names build_args_async_values)
  have c7: "bind_params (fst (build_args_sync dict dirname)) (snd (build_args_sync dict dirname))
     = zip (fst (build_args_sync dict dirname)) (snd (build_args_sync dict dirname))"
    using c5 by (rule bind_params_same_length)
  have c8: "bind_params (fst (build_args_async dict dirname)) (snd (build_args_async dict dirname))
     = zip (fst (build_args_async dict dirname)) (snd (build_args_async dict dirname))"
    using c6 by (rule bind_params_same_length)
  have c9: "distinct (map fst dict) \<longrightarrow>
      (\<forall>i<length dict.
         fst (build_args_sync dict dirname) ! i = fst (dict ! i) \<and>
         snd (build_args_sync dict dirname) ! i = snd (dict ! i) \<and>
         snd (build_args_async dict dirname) ! i = snd (dict ! i))"
    by (simp add: build_args_sync_names build_args_sync_values build_args_async_values nth_append obj_get_distinct)
  have c10: "typeof (obj_get dict ''write'') = ''function'' \<and> readFile h fp = Inr template \<and>
    makeRun template False (option_or options ''startDelim'' ''%{'') (option_or options ''endDelim'' ''}%'') = Inr src \<and>
    construct h False (fst (build_args_sync dict (resolve_dirname h fp))) src = Inr func \<longrightarrow>
      includeSync (Suc n) h fp (JObject dict) options =
        then_events
          [FileRead fp,
           Constructed (fst (build_args_sync dict (resolve_dirname h fp)) @ [src]),
           Applied (snd (build_args_sync dict (resolve_dirname h fp)))]
          (exec_sync n h
             (zip (fst (build_args_sync dict (resolve_dirname h fp))) (snd (build_args_sync dict (resolve_dirname h fp))))
             (func (zip (fst (build_args_sync dict (resolve_dirname h fp))) (snd (build_args_sync dict (resolve_dirname h fp))))))"
    using includeSync_constructs[of dict h fp template options src func n] by (intro impI) (elim conjE)
  have c11: "typeof (obj_get dict ''write'') = ''function'' \<and> readFile h fp = Inr template \<and>
    makeRun template True ''%{'' ''}%'' = Inr asrc \<and>
    construct h True (fst (build_args_async dict (resolve_dirname h fp))) asrc = Inr afunc \<longrightarrow>
      include_try (Suc n) h fp (JObject dict) =
        then_events
          [FileRead fp,
           Constructed (fst (build_args_async dict (resolve_dirname h fp)) @ [asrc]),
           Applied (snd (build_args_async dict (resolve_dirname h fp)))]
          (exec_async n h
             (zip (fst (build_args_async dict (resolve_dirname h fp))) (snd (build_args_async dict (resolve_dirname h fp))))
             (afunc (zip (fst (build_args_async dict (resolve_dirname h fp))) (snd (build_args_async dict (resolve_dirname h fp))))))"
    using include_try_constructs[of dict h fp template asrc afunc n] by (intro impI) (elim conjE)
  show ?thesis
    using c1 c2 c3 c4 c5 c6 c7 c8 c9 c10 c11 by (intro conjI)
qed

lemmas demo_simps =
  demo_host_def demo_dict_def makeRun_scan obj_get_def has_key_def build_args_sync_def
  build_args_async_def bind_params_def then_events_def call_args_def option_or_def
  run_prologue_def sublist_Cons_right include_target_def include_merged_def object_assign_def

text \<open>The context \<open>{write, a: 1}\<close> on the file \<open>hello\<close>.\<close>

theorem parameters_and_arguments_correspond_witness:
  "fst (build_args_sync demo_dict ''/dir'') = [''write'', ''a'', ''require'', ''include''] \<and>
   snd (build_args_sync demo_dict ''/dir'')
     = [JFunction ''w'', JNum 1, RequireClosure False ''/dir'', IncludeSyncClosure ''/dir'' demo_dict] \<and>
   snd (build_args_sync demo_dict ''/dir'') ! 1 = snd (demo_dict ! 1) \<and>
   includeSync 1 demo_host ''/dir/hello._'' (JObject demo_dict) None =
     Some ([FileRead ''/dir/hello._'',
            Constructed [''write'', ''a'', ''require'', ''include'', run_prologue @ ''hello'' @ [squote] @ '');''],
            Applied [JFunction ''w'', JNum 1, RequireClosure False ''/dir'', IncludeSyncClosure ''/dir'' demo_dict],
            CallOut ''w'' [JStr ''hello'']], Normal) \<and>
   include_try 1 demo_host ''/dir/hello._'' (JObject demo_dict) =
     Some ([FileRead ''/dir/hello._'',
            Constructed [''write'', ''a'', ''require'', ''include'', run_prologue @ ''hello'' @ [squote] @ '');''],
            Applied [JFunction ''w'', JNum 1, RequireClosure True ''/dir'', IncludeClosure ''/dir'' demo_dict],
            CallOut ''w'' [JStr ''hello'']], Normal)"
  using parameters_and_arguments_correspond[of demo_dict "''/dir''" demo_host "''/dir/hello._''" "''hello''" None
      "run_prologue @ ''hello'' @ [squote] @ '');''"
      "\<lambda>scope. [Call ''write'' ''hello'' None False]" 0
      "run_prologue @ ''hello'' @ [squote] @ '');''"
      "\<lambda>scope. [Call ''write'' ''hello'' None False]"]
  by (simp add: demo_simps)

section \<open>Path resolution of includes\<close>

lemma exec_sync_include_call:
  assumes "map_of scope f = Some (IncludeSyncClosure dirname dict)"
  shows "exec_sync n h scope (Call f path2 d aw # rest) =
    (case includeSync n h (include_target dirname path2) (JObject (include_merged dict d)) None of
       None \<Rightarrow> None
     | Some (evs, Throws e) \<Rightarrow> Some (evs, Throws e)
     | Some (evs, Normal) \<Rightarrow> then_events evs (exec_sync n h scope rest))"
  using assms by simp

lemma exec_async_include_call:
  assumes "map_of scope f = Some (IncludeClosure dirname dict)"
  shows "exec_async n h scope (Call f path2 d True # rest) =
    (case include_async n h (include_target dirname path2) (JObject (include_merged dict d)) PromiseCallback of
       None \<Rightarrow> None
     | Some evs \<Rightarrow>
        (case promise_settled evs of
           Throws err \<Rightarrow> Some (evs, Throws err)
         | Normal \<Rightarrow> then_events evs (exec_async n h scope rest)))"
  using assms by (simp del: include_async.simps promise_settled.simps)

lemma exec_async_detached_call:
  assumes "map_of scope f = Some (IncludeClosure dirname dict)"
  shows "exec_async n h scope (Call f path2 d False # rest) =
    then_events [Detached (include_target dirname path2) (include_merged dict d)] (exec_async n h scope rest)"
  using assms by simp

text \<open>
  Claim C7. The injected include of both drivers opens the target path unchanged when
  it is absolute and the path \<open>dirname/target\<close> otherwise, where \<open>dirname\<close> is the
  directory of the including file: the driver run on \<open>filepath\<close> injects a closure that
  holds \<open>resolve_dirname h filepath\<close>, and a call of that closure runs the driver on
  \<open>include_target dirname path2\<close> (in suspending code the run is awaited, or started
  and not awaited, on the same path). From a template whose directory is \<open>/dir\<close>,
  \<open>sub/x._\<close> resolves to \<open>/dir/sub/x._\<close> and \<open>/abs/x._\<close> to itself.
\<close>

theorem include_path_resolution:
  "include_target dirname path2 = (if isAbsolute path2 then path2 else dirname @ ''/'' @ path2) \<and>
   (resolve_dirname h ''/dir/main._'' = ''/dir'' \<longrightarrow>
      include_target (resolve_dirname h ''/dir/main._'') ''sub/x._'' = ''/dir/sub/x._'' \<and>
      include_target (resolve_dirname h ''/dir/main._'') ''/abs/x._'' = ''/abs/x._'') \<and>
   (\<not> has_key dict ''include'' \<longrightarrow>
      map_of (zip (fst (build_args_sync dict (resolve_dirname h filepath)))
                  (snd (build_args_sync dict (resolve_dirname h filepath)))) ''include''
        = Some (IncludeSyncClosure (resolve_dirname h filepath) dict) \<and>
      map_of (zip (fst (build_args_async dict (resolve_dirname h filepath)))
                  (snd (build_args_async dict (resolve_dirname h filepath)))) ''include''
        = Some (IncludeClosure (resolve_dirname h filepath) dict)) \<and>
   (map_of scope f = Some (IncludeSyncClosure dirname cdict) \<longrightarrow>
      exec_sync n h scope (Call f path2 d aw # rest) =
        (case includeSync n h (include_target dirname path2) (JObject (include_merged cdict d)) None of
           None \<Rightarrow> None
         | Some (evs, Throws e) \<Rightarrow> Some (evs, Throws e)
         | Some (evs, Normal) \<Rightarrow> then_events evs (exec_sync n h scope rest))) \<and>
   (map_of scope f = Some (IncludeClosure dirname cdict) \<longrightarrow>
      exec_async n h scope (Call f path2 d True # rest) =
        (case include_async n h (include_target dirname path2) (JObject (include_merged cdict d)) PromiseCallback of
           None \<Rightarrow> None
         | Some evs \<Rightarrow>
            (case promise_settled evs of
               Throws err \<Rightarrow> Some (evs, Throws err)
             | Normal \<Rightarrow> then_events evs (exec_async n h scope rest)))) \<and>
   (map_of scope f = Some (IncludeClosure dirname cdict) \<longrightarrow>
      exec_async n h scope (Call f path2 d False # rest) =
        then_events [Detached (include_target dirname path2) (include_merged cdict d)]
          (exec_async n h scope rest))"
proof -
  have c1: "include_target dirname path2 = (if isAbsolute path2 then path2 else dirname @ ''/'' @ path2)"
    by (simp add: include_target_def)
  have c2: "resolve_dirname h ''/dir/main._'' = ''/dir'' \<longrightarrow>
      include_target (resolve_dirname h ''/dir/main._'') ''sub/x._'' = ''/dir/sub/x._'' \<and>
      include_target (resolve_dirname h ''/dir/main._'') ''/abs/x._'' = ''/abs/x._''"
    by (simp add: include_target_def)
  have k: "map_of (zip (ks @ [''include'']) (vs @ [v])) ''include'' = Some v"
    if "length ks = length vs" "''include'' \<notin> set ks" for ks :: "string list" and vs :: "js_value list" and v
    using that
  proof (induction ks arbitrary: vs)
    case Nil
    then show ?case by simp
  next
    case (Cons a ks)
    then obtain b vs' where "vs = b # vs'" by (cases vs) auto
    with Cons show ?case by auto
  qed
  have nk: "''include'' \<notin> set (map fst dict)" if "\<not> has_key dict ''include''"
    using that by (auto simp: has_key_def map_of_eq_None_iff)
  have c3: "\<not> has_key dict ''include'' \<longrightarrow>
      map_of (zip (fst (build_args_sync dict (resolve_dirname h filepath)))
                  (snd (build_args_sync dict (resolve_dirname h filepath)))) ''include''
        = Some (IncludeSyncClosure (resolve_dirname h filepath) dict) \<and>
      map_of (zip (fst (build_args_async dict (resolve_dirname h filepath)))
                  (snd (build_args_async dict (resolve_dirname h filepath)))) ''include''
        = Some (IncludeClosure (resolve_dirname h filepath) dict)"
  proof (intro impI conjI)
    assume a: "\<not> has_key dict ''include''"
    let ?ks = "map fst dict @ (if has_key dict ''require'' then [] else [''require''])"
    have 1: "''include'' \<notin> set ?ks" using nk[OF a] by auto
    show "map_of (zip (fst (build_args_sync dict (resolve_dirname h filepath)))
                  (snd (build_args_sync dict (resolve_dirname h filepath)))) ''include''
        = Some (IncludeSyncClosure (resolve_dirname h filepath) dict)"
      using k[of ?ks "map (obj_get dict) (map fst dict) @ (if has_key dict ''require'' then [] else [RequireClosure False (resolve_dirname h filepath)])"
            "IncludeSyncClosure (resolve_dirname h filepath) dict"] 1 a
      by (simp add: build_args_sync_names build_args_sync_values)
    show "map_of (zip (fst (build_args_async dict (resolve_dirname h filepath)))
                  (snd (build_args_async dict (resolve_dirname h filepath)))) ''include''
        = Some (IncludeClosure (resolve_dirname h filepath) dict)"
      using k[of ?ks "map (obj_get dict) (map fst dict) @ (if has_key dict ''require'' then [] else [RequireClosure True (resolve_dirname h filepath)])"
            "IncludeClosure (resolve_dirname h filepath) dict"] 1 a
      by (simp add: build_args_async_names build_args_async_values)
  qed
  have c4: "map_of scope f = Some (IncludeSyncClosure dirname cdict) \<longrightarrow>
      exec_sync n h scope (Call f path2 d aw # rest) =
        (case includeSync n h (include_target dirname path2) (JObject (include_merged cdict d)) None of
           None \<Rightarrow> None
         | Some (evs, Throws e) \<Rightarrow> Some (evs, Throws e)
         | Some (evs, Normal) \<Rightarrow> then_events evs (exec_sync n h scope rest))"
    using exec_sync_include_call[of scope f dirname cdict n h path2 d aw rest] by (intro impI)
  have c5: "map_of scope f = Some (IncludeClosure dirname cdict) \<longrightarrow>
      exec_async n h scope (Call f path2 d True # rest) =
        (case include_async n h (include_target dirname path2) (JObject (include_merged cdict d)) PromiseCallback of
           None \<Rightarrow> None
         | Some evs \<Rightarrow>
            (case promise_settled evs of
               Throws err \<Rightarrow> Some (evs, Throws err)
             | Normal \<Rightarrow> then_events evs (exec_async n h scope rest)))"
    using exec_async_include_call[of scope f dirname cdict n h path2 d rest] by (intro impI)
  have c6: "map_of scope f = Some (IncludeClosure dirname cdict) \<longrightarrow>
      exec_async n h scope (Call f path2 d False # rest) =
        then_events [Detached (include_target dirname path2) (include_merged cdict d)]
          (exec_async n h scope rest)"
    using exec_async_detached_call[of scope f dirname cdict n h path2 d rest] by (intro impI)
  show ?thesis using c1 c2 c3 c4 c5 c6 by (intro conjI)
qed

text \<open>The includes of \<open>/dir/main._\<close>, and the nested run of \<open>hello._\<close> started by
  an injected include that holds the directory \<open>/dir\<close>.\<close>

theorem include_path_resolution_witness:
  "include_target (resolve_dirname demo_host ''/dir/main._'') ''sub/x._'' = ''/dir/sub/x._'' \<and>
   include_target (resolve_dirname demo_host ''/dir/main._'') ''/abs/x._'' = ''/abs/x._'' \<and>
   map_of (zip (fst (build_args_sync demo_dict (resolve_dirname demo_host ''/dir/main._'')))
               (snd (build_args_sync demo_dict (resolve_dirname demo_host ''/dir/main._'')))) ''include''
     = Some (IncludeSyncClosure ''/dir'' demo_dict) \<and>
   exec_sync 1 demo_host [(''include'', IncludeSyncClosure ''/dir'' demo_dict)]
       [Call ''include'' ''hello._'' None False]
     = includeSync 1 demo_host ''/dir/hello._'' (JObject demo_dict) None \<and>
   exec_async 1 demo_host [(''include'', IncludeClosure ''/dir'' demo_dict)]
       [Call ''include'' ''/dir/hello._'' None True]
     = map_option (\<lambda>evs. (evs, Normal))
         (include_async 1 demo_host ''/dir/hello._'' (JObject demo_dict) PromiseCallback) \<and>
   exec_async 1 demo_host [(''include'', IncludeClosure ''/dir'' demo_dict)]
       [Call ''include'' ''/dir/hello._'' None False]
     = Some ([Detached ''/dir/hello._'' demo_dict], Normal)"
proof -
  have r: "resolve_dirname demo_host ''/dir/main._'' = ''/dir''" by (simp add: demo_host_def)
  have nk: "\<not> has_key demo_dict ''include''" by (simp add: has_key_def demo_dict_def)
  have s: "map_of [(''include'', IncludeSyncClosure ''/dir'' demo_dict)] ''include''
             = Some (IncludeSyncClosure ''/dir'' demo_dict)" by simp
  have a: "map_of [(''include'', IncludeClosure ''/dir'' demo_dict)] ''include''
             = Some (IncludeClosure ''/dir'' demo_dict)" by simp
  have m: "include_merged demo_dict None = demo_dict"
    by (simp add: include_merged_def object_assign_def demo_dict_def)
  have t1: "include_target ''/dir'' ''hello._'' = ''/dir/hello._''" by (simp add: include_target_def)
  have t2: "include_target ''/dir'' ''/dir/hello._'' = ''/dir/hello._''" by (simp add: include_target_def)
  have sy: "includeSync 1 demo_host ''/dir/hello._'' (JObject demo_dict) None =
     Some ([FileRead ''/dir/hello._'',
            Constructed [''write'', ''a'', ''require'', ''include'', run_prologue @ ''hello'' @ [squote] @ '');''],
            Applied [JFunction ''w'', JNum 1, RequireClosure False ''/dir'', IncludeSyncClosure ''/dir'' demo_dict],
            CallOut ''w'' [JStr ''hello'']], Normal)"
    by (simp add: demo_simps)
  have as: "include_async 1 demo_host ''/dir/hello._'' (JObject demo_dict) PromiseCallback =
     Some [FileRead ''/dir/hello._'',
            Constructed [''write'', ''a'', ''require'', ''include'', run_prologue @ ''hello'' @ [squote] @ '');''],
            Applied [JFunction ''w'', JNum 1, RequireClosure True ''/dir'', IncludeClosure ''/dir'' demo_dict],
            CallOut ''w'' [JStr ''hello''], CallbackCall PromiseCallback []]"
    by (simp add: demo_simps)
  note th1 = include_path_resolution[of "''/dir''" "''hello._''" demo_host demo_dict "''/dir/main._''"
      "[(''include'', IncludeSyncClosure ''/dir'' demo_dict)]" "''include''" demo_dict 1 None False "[]"]
  note th2 = include_path_resolution[of "''/dir''" "''/dir/hello._''" demo_host demo_dict "''/dir/main._''"
      "[(''include'', IncludeClosure ''/dir'' demo_dict)]" "''include''" demo_dict 1 None False "[]"]
  have e1: "exec_sync 1 demo_host [(''include'', IncludeSyncClosure ''/dir'' demo_dict)]
       [Call ''include'' ''hello._'' None False]
     = includeSync 1 demo_host ''/dir/hello._'' (JObject demo_dict) None"
    using th1 s unfolding m t1 sy by (simp add: then_events_def)
  have e2: "exec_async 1 demo_host [(''include'', IncludeClosure ''/dir'' demo_dict)]
       [Call ''include'' ''/dir/hello._'' None True]
     = map_option (\<lambda>evs. (evs, Normal))
         (include_async 1 demo_host ''/dir/hello._'' (JObject demo_dict) PromiseCallback)"
  proof -
    have "exec_async 1 demo_host [(''include'', IncludeClosure ''/dir'' demo_dict)]
            (Call ''include'' ''/dir/hello._'' None True # []) =
          (case include_async 1 demo_host (include_target ''/dir'' ''/dir/hello._'')
                  (JObject (include_merged demo_dict None)) PromiseCallback of
             None \<Rightarrow> None
           | Some evs \<Rightarrow>
              (case promise_settled evs of
                 Throws err \<Rightarrow> Some (evs, Throws err)
               | Normal \<Rightarrow> then_events evs
                   (exec_async 1 demo_host [(''include'', IncludeClosure ''/dir'' demo_dict)] [])))"
      using th2 a by (simp only: simp_thms)
    then show ?thesis unfolding m t2 as by (simp add: then_events_def)
  qed
  have p: "include_target (resolve_dirname demo_host ''/dir/main._'') ''sub/x._'' = ''/dir/sub/x._'' \<and>
   include_target (resolve_dirname demo_host ''/dir/main._'') ''/abs/x._'' = ''/abs/x._''"
    using th1 r by (simp only: simp_thms)
  have c: "map_of (zip (fst (build_args_sync demo_dict (resolve_dirname demo_host ''/dir/main._'')))
               (snd (build_args_sync demo_dict (resolve_dirname demo_host ''/dir/main._'')))) ''include''
     = Some (IncludeSyncClosure ''/dir'' demo_dict)"
    using th1 nk r by (simp only: simp_thms)
  have e3: "exec_async 1 demo_host [(''include'', IncludeClosure ''/dir'' demo_dict)]
       [Call ''include'' ''/dir/hello._'' None False]
     = Some ([Detached ''/dir/hello._'' demo_dict], Normal)"
  proof -
    have "exec_async 1 demo_host [(''include'', IncludeClosure ''/dir'' demo_dict)]
            (Call ''include'' ''/dir/hello._'' None False # []) =
          then_events [Detached (include_target ''/dir'' ''/dir/hello._'') (include_merged demo_dict None)]
            (exec_async 1 demo_host [(''include'', IncludeClosure ''/dir'' demo_dict)] [])"
      using th2 a by (simp only: simp_thms)
    then show ?thesis unfolding m t2 by (simp add: then_events_def)
  qed
  from p c e1 e2 e3 show ?thesis by (simp only: simp_thms)
qed

section \<open>The context of a nested run\<close>

lemma map_of_obj_set: "map_of (obj_set kvs k v) = (map_of kvs)(k \<mapsto> v)"
  by (induction kvs) (auto simp: fun_upd_twist)

lemma obj_set_new: "k \<notin> set (map fst kvs) \<Longrightarrow> obj_set kvs k v = kvs @ [(k, v)]"
  by (induction kvs) auto

lemma map_of_object_assign:
  "distinct (map fst src) \<Longrightarrow> map_of (object_assign target src) = map_of target ++ map_of src"
proof (induction src arbitrary: target)
  case Nil
  then show ?case by (simp add: object_assign_def)
next
  case (Cons kv src)
  obtain k v where kv: "kv = (k, v)" by (cases kv)
  have d: "distinct (map fst src)" and nk: "k \<notin> set (map fst src)"
    using Cons.prems kv by simp_all
  have "object_assign target (kv # src) = object_assign (obj_set target k v) src"
    by (simp add: object_assign_def kv)
  moreover have "map_of (object_assign (obj_set target k v) src) = map_of (obj_set target k v) ++ map_of src"
    using d by (rule Cons.IH)
  ultimately have "map_of (object_assign target (kv # src)) = (map_of target)(k \<mapsto> v) ++ map_of src"
    by (simp only: map_of_obj_set)
  also have "\<dots> = map_of target ++ map_of (kv # src)"
  proof (rule ext)
    fix x
    have "map_of src k = None" using nk by (simp add: map_of_eq_None_iff)
    then show "((map_of target)(k \<mapsto> v) ++ map_of src) x = (map_of target ++ map_of (kv # src)) x"
      by (cases "map_of src x") (auto simp: kv map_add_def)
  qed
  finally show ?case .
qed

lemma object_assign_fresh:
  "distinct (map fst src) \<Longrightarrow> set (map fst acc) \<inter> set (map fst src) = {} \<Longrightarrow>
   object_assign acc src = acc @ src"
proof (induction src arbitrary: acc)
  case Nil
  then show ?case by (simp add: object_assign_def)
next
  case (Cons kv src)
  obtain k v where kv: "kv = (k, v)" by (cases kv)
  have d: "distinct (map fst src)" and nk: "k \<notin> set (map fst src)"
    using Cons.prems(1) kv by simp_all
  have na: "k \<notin> set (map fst acc)" using Cons.prems(2) kv by auto
  have step: "object_assign acc (kv # src) = object_assign (acc @ [(k, v)]) src"
    using obj_set_new[OF na] by (simp add: object_assign_def kv)
  have "set (map fst (acc @ [(k, v)])) \<inter> set (map fst src) = {}"
    using Cons.prems(2) nk kv by auto
  from Cons.IH[OF d this] step kv show ?case by simp
qed

lemma include_merged_map:
  assumes "distinct (map fst dict)"
  shows "map_of (include_merged dict None) = map_of dict"
    and "distinct (map fst d2) \<Longrightarrow> map_of (include_merged dict (Some d2)) = map_of dict ++ map_of d2"
  using assms by (simp_all add: include_merged_def map_of_object_assign)

lemma include_merged_None: "distinct (map fst dict) \<Longrightarrow> include_merged dict None = dict"
  using object_assign_fresh[of dict "[]"] by (simp add: include_merged_def)

text \<open>
  Claim C2, as stated, takes the nested context from the parent's context after
  injection. The parent \<open>{write}\<close> runs with the parameters \<open>write\<close>, \<open>require\<close> and
  \<open>include\<close>, but the context its injected include passes on is \<open>{write}\<close> alone: the
  nested run receives no \<open>require\<close> and no \<open>include\<close> from its parent.
\<close>

theorem nested_context_omits_injected_capabilities:
  "map fst (bind_params (fst (build_args_sync [(''write'', JFunction ''w'')] ''/dir''))
                        (snd (build_args_sync [(''write'', JFunction ''w'')] ''/dir'')))
     = [''write'', ''require'', ''include''] \<and>
   include_merged [(''write'', JFunction ''w'')] None = [(''write'', JFunction ''w'')] \<and>
   include_merged [(''write'', JFunction ''w'')] None
     \<noteq> include_merged (bind_params (fst (build_args_sync [(''write'', JFunction ''w'')] ''/dir''))
                                     (snd (build_args_sync [(''write'', JFunction ''w'')] ''/dir''))) None \<and>
   exec_sync 1 demo_host
       (bind_params (fst (build_args_sync [(''write'', JFunction ''w'')] ''/dir''))
                    (snd (build_args_sync [(''write'', JFunction ''w'')] ''/dir'')))
       [Call ''include'' ''hello._'' None False]
     = includeSync 1 demo_host ''/dir/hello._'' (JObject [(''write'', JFunction ''w'')]) None"
  by (simp add: demo_simps)

text \<open>
  Claim C2, amended. The context passed to the nested run is a shallow copy of the
  context the caller passed to the enclosing run (the \<open>dict\<close> the injected include
  closes over, without the injected capabilities), overwritten key by key by the
  override context when one is given: a key of the override takes the override's value
  whole, every other key keeps the caller's value. Parent \<open>{write, a: 1, b: 2}\<close> with
  override \<open>{b: 3, c: 4}\<close> gives \<open>{write, a: 1, b: 3, c: 4}\<close>. In suspending code
  the nested run is awaited, or started and not awaited, on the same context.
\<close>

theorem nested_context_merges_caller_dict:
  "(distinct (map fst dict) \<longrightarrow>
      include_merged dict None = dict) \<and>
   (distinct (map fst dict) \<and> distinct (map fst d2) \<longrightarrow>
      map_of (include_merged dict (Some d2)) = map_of dict ++ map_of d2) \<and>
   include_merged [(''write'', JFunction ''w''), (''a'', JNum 1), (''b'', JNum 2)]
                  (Some [(''b'', JNum 3), (''c'', JNum 4)])
     = [(''write'', JFunction ''w''), (''a'', JNum 1), (''b'', JNum 3), (''c'', JNum 4)] \<and>
   include_merged [(''write'', JFunction ''w''), (''cfg'', JObject [(''x'', JNum 1), (''y'', JNum 2)])]
                  (Some [(''cfg'', JObject [(''x'', JNum 9)])])
     = [(''write'', JFunction ''w''), (''cfg'', JObject [(''x'', JNum 9)])] \<and>
   (\<not> has_key dict ''include'' \<longrightarrow>
      last (snd (build_args_sync dict dirname)) = IncludeSyncClosure dirname dict \<and>
      last (snd (build_args_async dict dirname)) = IncludeClosure dirname dict) \<and>
   (map_of scope f = Some (IncludeSyncClosure dirname dict) \<longrightarrow>
      exec_sync n h scope (Call f path2 d aw # rest) =
        (case includeSync n h (include_target dirname path2) (JObject (include_merged dict d)) None of
           None \<Rightarrow> None
         | Some (evs, Throws e) \<Rightarrow> Some (evs, Throws e)
         | Some (evs, Normal) \<Rightarrow> then_events evs (exec_sync n h scope rest))) \<and>
   (map_of scope f = Some (IncludeClosure dirname dict) \<longrightarrow>
      exec_async n h scope (Call f path2 d True # rest) =
        (case include_async n h (include_target dirname path2) (JObject (include_merged dict d)) PromiseCallback of
           None \<Rightarrow> None
         | Some evs \<Rightarrow>
            (case promise_settled evs of
               Throws err \<Rightarrow> Some (evs, Throws err)
             | Normal \<Rightarrow> then_events evs (exec_async n h scope rest)))) \<and>
   (map_of scope f = Some (IncludeClosure dirname dict) \<longrightarrow>
      exec_async n h scope (Call f path2 d False # rest) =
        then_events [Detached (include_target dirname path2) (include_merged dict d)]
          (exec_async n h scope rest))"
proof -
  have c1: "distinct (map fst dict) \<longrightarrow> include_merged dict None = dict"
    by (simp add: include_merged_None)
  have c2: "distinct (map fst dict) \<and> distinct (map fst d2) \<longrightarrow>
      map_of (include_merged dict (Some d2)) = map_of dict ++ map_of d2"
    by (simp add: include_merged_map)
  have c3: "include_merged [(''write'', JFunction ''w''), (''a'', JNum 1), (''b'', JNum 2)]
                  (Some [(''b'', JNum 3), (''c'', JNum 4)])
     = [(''write'', JFunction ''w''), (''a'', JNum 1), (''b'', JNum 3), (''c'', JNum 4)]"
    by (simp add: include_merged_def object_assign_def)
  have c4: "include_merged [(''write'', JFunction ''w''), (''cfg'', JObject [(''x'', JNum 1), (''y'', JNum 2)])]
                  (Some [(''cfg'', JObject [(''x'', JNum 9)])])
     = [(''write'', JFunction ''w''), (''cfg'', JObject [(''x'', JNum 9)])]"
    by (simp add: include_merged_def object_assign_def)
  have c5: "\<not> has_key dict ''include'' \<longrightarrow>
      last (snd (build_args_sync dict dirname)) = IncludeSyncClosure dirname dict \<and>
      last (snd (build_args_async dict dirname)) = IncludeClosure dirname dict"
    by (simp add: build_args_sync_values build_args_async_values)
  have c6: "map_of scope f = Some (IncludeSyncClosure dirname dict) \<longrightarrow>
      exec_sync n h scope (Call f path2 d aw # rest) =
        (case includeSync n h (include_target dirname path2) (JObject (include_merged dict d)) None of
           None \<Rightarrow> None
         | Some (evs, Throws e) \<Rightarrow> Some (evs, Throws e)
         | Some (evs, Normal) \<Rightarrow> then_events evs (exec_sync n h scope rest))"
    using exec_sync_include_call[of scope f dirname dict n h path2 d aw rest] by (intro impI)
  have c7: "map_of scope f = Some (IncludeClosure dirname dict) \<longrightarrow>
      exec_async n h scope (Call f path2 d True # rest) =
        (case include_async n h (include_target dirname path2) (JObject (include_merged dict d)) PromiseCallback of
           None \<Rightarrow> None
         | Some evs \<Rightarrow>
            (case promise_settled evs of
               Throws err \<Rightarrow> Some (evs, Throws err)
             | Normal \<Rightarrow> then_events evs (exec_async n h scope rest)))"
    using exec_async_include_call[of scope f dirname dict n h path2 d rest] by (intro impI)
  have c8: "map_of scope f = Some (IncludeClosure dirname dict) \<longrightarrow>
      exec_async n h scope (Call f path2 d False # rest) =
        then_events [Detached (include_target dirname path2) (include_merged dict d)]
          (exec_async n h scope rest)"
    using exec_async_detached_call[of scope f dirname dict n h path2 d rest] by (intro impI)
  show ?thesis using c1 c2 c3 c4 c5 c6 c7 c8 by (intro conjI)
qed

text \<open>The merge of the specification's example, and the nested run that receives it.\<close>

theorem nested_context_merges_caller_dict_witness:
  "include_merged parent_dict None = parent_dict \<and>
   map_of (include_merged parent_dict (Some override_dict)) = map_of parent_dict ++ map_of override_dict \<and>
   map_of (include_merged parent_dict (Some override_dict)) ''b'' = Some (JNum 3) \<and>
   last (snd (build_args_sync parent_dict ''/dir'')) = IncludeSyncClosure ''/dir'' parent_dict \<and>
   last (snd (build_args_async parent_dict ''/dir'')) = IncludeClosure ''/dir'' parent_dict \<and>
   exec_sync 1 demo_host [(''include'', IncludeSyncClosure ''/dir'' parent_dict)]
       [Call ''include'' ''hello._'' (Some override_dict) False]
     = includeSync 1 demo_host ''/dir/hello._''
         (JObject [(''write'', JFunction ''w''), (''a'', JNum 1), (''b'', JNum 3), (''c'', JNum 4)]) None \<and>
   exec_async 1 demo_host [(''include'', IncludeClosure ''/dir'' parent_dict)]
       [Call ''include'' ''hello._'' (Some override_dict) True]
     = map_option (\<lambda>evs. (evs, Normal))
         (include_async 1 demo_host ''/dir/hello._''
            (JObject [(''write'', JFunction ''w''), (''a'', JNum 1), (''b'', JNum 3), (''c'', JNum 4)]) PromiseCallback) \<and>
   exec_async 1 demo_host [(''include'', IncludeClosure ''/dir'' parent_dict)]
       [Call ''include'' ''hello._'' (Some override_dict) False]
     = Some ([Detached ''/dir/hello._''
                [(''write'', JFunction ''w''), (''a'', JNum 1), (''b'', JNum 3), (''c'', JNum 4)]], Normal)"
proof -
  have d1: "distinct (map fst parent_dict)" by (simp add: parent_dict_def)
  have d2: "distinct (map fst override_dict)" by (simp add: override_dict_def)
  have nk: "\<not> has_key parent_dict ''include''" by (simp add: has_key_def parent_dict_def)
  have s: "map_of [(''include'', IncludeSyncClosure ''/dir'' parent_dict)] ''include''
             = Some (IncludeSyncClosure ''/dir'' parent_dict)" by simp
  have a: "map_of [(''include'', IncludeClosure ''/dir'' parent_dict)] ''include''
             = Some (IncludeClosure ''/dir'' parent_dict)" by simp
  note th = nested_context_merges_caller_dict[of parent_dict override_dict "''/dir''"
      "[(''include'', IncludeSyncClosure ''/dir'' parent_dict)]" "''include''" 1 demo_host "''hello._''"
      "Some override_dict" False "[]"]
  note tha = nested_context_merges_caller_dict[of parent_dict override_dict "''/dir''"
      "[(''include'', IncludeClosure ''/dir'' parent_dict)]" "''include''" 1 demo_host "''hello._''"
      "Some override_dict" False "[]"]
  have m: "include_merged parent_dict (Some override_dict)
     = [(''write'', JFunction ''w''), (''a'', JNum 1), (''b'', JNum 3), (''c'', JNum 4)]"
    using th by (simp add: parent_dict_def override_dict_def)
  have t1: "include_target ''/dir'' ''hello._'' = ''/dir/hello._''" by (simp add: include_target_def)
  have sy: "includeSync 1 demo_host ''/dir/hello._''
         (JObject [(''write'', JFunction ''w''), (''a'', JNum 1), (''b'', JNum 3), (''c'', JNum 4)]) None =
     Some ([FileRead ''/dir/hello._'',
            Constructed [''write'', ''a'', ''b'', ''c'', ''require'', ''include'', run_prologue @ ''hello'' @ [squote] @ '');''],
            Applied [JFunction ''w'', JNum 1, JNum 3, JNum 4, RequireClosure False ''/dir'',
                     IncludeSyncClosure ''/dir'' [(''write'', JFunction ''w''), (''a'', JNum 1), (''b'', JNum 3), (''c'', JNum 4)]],
            CallOut ''w'' [JStr ''hello'']], Normal)"
    by (simp add: demo_simps)
  have as: "include_async 1 demo_host ''/dir/hello._''
         (JObject [(''write'', JFunction ''w''), (''a'', JNum 1), (''b'', JNum 3), (''c'', JNum 4)]) PromiseCallback =
     Some [FileRead ''/dir/hello._'',
            Constructed [''write'', ''a'', ''b'', ''c'', ''require'', ''include'', run_prologue @ ''hello'' @ [squote] @ '');''],
            Applied [JFunction ''w'', JNum 1, JNum 3, JNum 4, RequireClosure True ''/dir'',
                     IncludeClosure ''/dir'' [(''write'', JFunction ''w''), (''a'', JNum 1), (''b'', JNum 3), (''c'', JNum 4)]],
            CallOut ''w'' [JStr ''hello''], CallbackCall PromiseCallback []]"
    by (simp add: demo_simps)
  have e1: "exec_sync 1 demo_host [(''include'', IncludeSyncClosure ''/dir'' parent_dict)]
       [Call ''include'' ''hello._'' (Some override_dict) False]
     = includeSync 1 demo_host ''/dir/hello._''
         (JObject [(''write'', JFunction ''w''), (''a'', JNum 1), (''b'', JNum 3), (''c'', JNum 4)]) None"
    using th s unfolding m t1 sy by (simp add: then_events_def)
  have e2: "exec_async 1 demo_host [(''include'', IncludeClosure ''/dir'' parent_dict)]
       [Call ''include'' ''hello._'' (Some override_dict) True]
     = map_option (\<lambda>evs. (evs, Normal))
         (include_async 1 demo_host ''/dir/hello._''
            (JObject [(''write'', JFunction ''w''), (''a'', JNum 1), (''b'', JNum 3), (''c'', JNum 4)]) PromiseCallback)"
  proof -
    have "exec_async 1 demo_host [(''include'', IncludeClosure ''/dir'' parent_dict)]
            (Call ''include'' ''hello._'' (Some override_dict) True # []) =
          (case include_async 1 demo_host (include_target ''/dir'' ''hello._'')
                  (JObject (include_merged parent_dict (Some override_dict))) PromiseCallback of
             None \<Rightarrow> None
           | Some evs \<Rightarrow>
              (case promise_settled evs of
                 Throws err \<Rightarrow> Some (evs, Throws err)
               | Normal \<Rightarrow> then_events evs
                   (exec_async 1 demo_host [(''include'', IncludeClosure ''/dir'' parent_dict)] [])))"
      using tha a by (simp only: simp_thms)
    then show ?thesis unfolding m t1 as by (simp add: then_events_def)
  qed
  have p1: "include_merged parent_dict None = parent_dict"
    using th d1 by (simp only: simp_thms)
  have p2: "map_of (include_merged parent_dict (Some override_dict)) = map_of parent_dict ++ map_of override_dict"
    using th d1 d2 by (simp only: simp_thms)
  have p3: "map_of (include_merged parent_dict (Some override_dict)) ''b'' = Some (JNum 3)"
    unfolding m by simp
  have p4: "last (snd (build_args_sync parent_dict ''/dir'')) = IncludeSyncClosure ''/dir'' parent_dict \<and>
   last (snd (build_args_async parent_dict ''/dir'')) = IncludeClosure ''/dir'' parent_dict"
    using th nk by (simp only: simp_thms)
  have e3: "exec_async 1 demo_host [(''include'', IncludeClosure ''/dir'' parent_dict)]
       [Call ''include'' ''hello._'' (Some override_dict) False]
     = Some ([Detached ''/dir/hello._''
                [(''write'', JFunction ''w''), (''a'', JNum 1), (''b'', JNum 3), (''c'', JNum 4)]], Normal)"
  proof -
    have "exec_async 1 demo_host [(''include'', IncludeClosure ''/dir'' parent_dict)]
            (Call ''include'' ''hello._'' (Some override_dict) False # []) =
          then_events [Detached (include_target ''/dir'' ''hello._'')
                         (include_merged parent_dict (Some override_dict))]
            (exec_async 1 demo_host [(''include'', IncludeClosure ''/dir'' parent_dict)] [])"
      using tha a by (simp only: simp_thms)
    then show ?thesis unfolding m t1 by (simp add: then_events_def)
  qed
  from p1 p2 p3 p4 e1 e2 e3 show ?thesis by (simp only: simp_thms)
qed

section \<open>The check for the write capability\<close>

lemma includeSync_reads_first:
  assumes "typeof (obj_get kvs ''write'') = ''function''"
    and "includeSync (Suc n) h fp (JObject kvs) opts = Some (evs, c)"
  shows "\<exists>rest. evs = FileRead fp # rest"
  using assms
  by (auto simp: then_events_def split: sum.splits error.splits option.splits)

lemma include_try_reads_first:
  assumes "typeof (obj_get kvs ''write'') = ''function''"
    and "include_try (Suc n) h fp (JObject kvs) = Some (evs, c)"
  shows "\<exists>rest. evs = FileRead fp # rest"
  using assms
  by (auto simp: then_events_def split: sum.splits error.splits option.splits)

lemma include_async_reads_first:
  assumes "typeof (obj_get kvs ''write'') = ''function''"
    and "include_async (Suc n) h fp (JObject kvs) cb = Some evs"
  shows "\<exists>rest. evs = FileRead fp # rest"
proof -
  obtain pre c where t: "include_try (Suc n) h fp (JObject kvs) = Some (pre, c)"
    and e: "evs = pre @ [CallbackCall cb (case c of Throws err \<Rightarrow> [err] | Normal \<Rightarrow> [])]"
    using assms(2)
    by (auto simp del: include_try.simps split: option.splits prod.splits completion.splits)
  from include_try_reads_first[OF assms(1) t] obtain rest where "pre = FileRead fp # rest" by blast
  with e show ?thesis by simp
qed

text \<open>
  The check on plain objects and on values that are not of type object. A context
  without a function under the key \<open>write\<close>, and any value whose type is not
  \<open>object\<close>, makes both entry points fail with the message
  \<open>dict must be an object including a 'write' function.\<close> before any file is read and
  before anything is transpiled or constructed: the blocking one throws the message,
  with no event; the suspending one only calls the callback with the error. With a
  function under \<open>write\<close> the check passes: a run that stays within the depth bound
  starts by reading the file, and a failing read is the run's failure.
\<close>

lemma write_check_on_plain_contexts:
  "(typeof (obj_get kvs ''write'') \<noteq> ''function'' \<longrightarrow>
      includeSync (Suc n) h fp (JObject kvs) opts = Some ([], Throws (JStr context_message)) \<and>
      include_async (Suc n) h fp (JObject kvs) cb = Some [CallbackCall cb [JError context_message]]) \<and>
   (typeof dict \<noteq> ''object'' \<longrightarrow>
      includeSync (Suc n) h fp dict opts = Some ([], Throws (JStr context_message)) \<and>
      include_async (Suc n) h fp dict cb = Some [CallbackCall cb [JError context_message]]) \<and>
   (typeof (obj_get kvs ''write'') = ''function'' \<longrightarrow>
      (\<forall>evs c. includeSync (Suc n) h fp (JObject kvs) opts = Some (evs, c) \<longrightarrow> (\<exists>rest. evs = FileRead fp # rest)) \<and>
      (\<forall>evs. include_async (Suc n) h fp (JObject kvs) cb = Some evs \<longrightarrow> (\<exists>rest. evs = FileRead fp # rest)) \<and>
      (\<forall>e. readFile h fp = Inl e \<longrightarrow>
         includeSync (Suc n) h fp (JObject kvs) opts = Some ([FileRead fp], Throws e) \<and>
         include_async (Suc n) h fp (JObject kvs) cb = Some [FileRead fp, CallbackCall cb [e]]))"
proof -
  have c1: "typeof (obj_get kvs ''write'') \<noteq> ''function'' \<longrightarrow>
      includeSync (Suc n) h fp (JObject kvs) opts = Some ([], Throws (JStr context_message)) \<and>
      include_async (Suc n) h fp (JObject kvs) cb = Some [CallbackCall cb [JError context_message]]"
    by simp
  have c2: "typeof dict \<noteq> ''object'' \<longrightarrow>
      includeSync (Suc n) h fp dict opts = Some ([], Throws (JStr context_message)) \<and>
      include_async (Suc n) h fp dict cb = Some [CallbackCall cb [JError context_message]]"
    by simp
  have c3: "typeof (obj_get kvs ''write'') = ''function'' \<longrightarrow>
      (\<forall>evs c. includeSync (Suc n) h fp (JObject kvs) opts = Some (evs, c) \<longrightarrow> (\<exists>rest. evs = FileRead fp # rest)) \<and>
      (\<forall>evs. include_async (Suc n) h fp (JObject kvs) cb = Some evs \<longrightarrow> (\<exists>rest. evs = FileRead fp # rest)) \<and>
      (\<forall>e. readFile h fp = Inl e \<longrightarrow>
         includeSync (Suc n) h fp (JObject kvs) opts = Some ([FileRead fp], Throws e) \<and>
         include_async (Suc n) h fp (JObject kvs) cb = Some [FileRead fp, CallbackCall cb [e]])"
  proof (intro impI conjI allI)
    fix evs c
    assume "typeof (obj_get kvs ''write'') = ''function''"
      and "includeSync (Suc n) h fp (JObject kvs) opts = Some (evs, c)"
    then show "\<exists>rest. evs = FileRead fp # rest" by (rule includeSync_reads_first)
  next
    fix evs
    assume "typeof (obj_get kvs ''write'') = ''function''"
      and "include_async (Suc n) h fp (JObject kvs) cb = Some evs"
    then show "\<exists>rest. evs = FileRead fp # rest" by (rule include_async_reads_first)
  next
    fix e
    assume "typeof (obj_get kvs ''write'') = ''function''" and "readFile h fp = Inl e"
    then show "includeSync (Suc n) h fp (JObject kvs) opts = Some ([FileRead fp], Throws e)" by simp
  next
    fix e
    assume "typeof (obj_get kvs ''write'') = ''function''" and "readFile h fp = Inl e"
    then show "include_async (Suc n) h fp (JObject kvs) cb = Some [FileRead fp, CallbackCall cb [e]]" by simp
  qed
  show ?thesis using c1 c2 c3 by (intro conjI)
qed

text \<open>
  Claim C5 does not hold for the context \<open>null\<close>, which lacks a write capability like
  any other value without one. The guard of both entry points is
  \<open>typeof(dict) !== "object" || typeof(dict.write) !== "function"\<close>; \<open>typeof null\<close>
  is \<open>object\<close>, so the first test lets \<open>null\<close> through and the second reads a
  property of \<open>null\<close>. The blocking entry point then throws, and the suspending one
  hands to its callback, the engine's TypeError
  \<open>Cannot read properties of null (reading 'write')\<close> and not the context error; no
  file is read in either case. The number \<open>5\<close>, whose type is not \<open>object\<close>, gets the
  context error.
\<close>

theorem null_context_fails_with_type_error:
  "typeof Null = ''object'' \<and>
   includeSync 1 demo_host ''/dir/hello._'' Null None
     = Some ([], Throws (JNativeError ''TypeError''
                (''Cannot read properties of null (reading '' @ [squote] @ ''write'' @ [squote] @ '')''))) \<and>
   includeSync 1 demo_host ''/dir/hello._'' Null None \<noteq> Some ([], Throws (JStr context_message)) \<and>
   include_async 1 demo_host ''/dir/hello._'' Null (UserCallback ''cb'')
     = Some [CallbackCall (UserCallback ''cb'')
               [JNativeError ''TypeError''
                  (''Cannot read properties of null (reading '' @ [squote] @ ''write'' @ [squote] @ '')'')]] \<and>
   include_async 1 demo_host ''/dir/hello._'' Null (UserCallback ''cb'')
     \<noteq> Some [CallbackCall (UserCallback ''cb'') [JError context_message]] \<and>
   includeSync 1 demo_host ''/dir/hello._'' (JNum 5) None = Some ([], Throws (JStr context_message)) \<and>
   include_async 1 demo_host ''/dir/hello._'' (JNum 5) (UserCallback ''cb'')
     = Some [CallbackCall (UserCallback ''cb'') [JError context_message]]"
  by (simp add: nullish_property_error_def)

section \<open>The error for an unterminated code section\<close>

lemma makeRun_outcome:
  "makeRun t a sd ed =
     (if inWrite (makeRun_loop t a sd ed initial_state)
      then Inr (run (makeRun_loop t a sd ed initial_state) @ [squote] @ '');'')
      else Inl (Error unpaired_message))"
  by (simp add: makeRun_def Let_def)

text \<open>
  Claim C1. A template that ends in CODE state does make \<open>makeRun\<close> throw, and one that
  ends in WRITE state gets its last write call closed (\<open>makeRun_outcome\<close>). But the
  message does not name the file: \<open>makeRun\<close> has no file parameter, and the \<open>path\<close> it
  concatenates is the path module. For the file \<open>/dir/open._\<close> holding
  \<open>abc %{ write(1);\<close> both drivers fail with
  \<open>File '[object Object]' has an un-paired %{\<close>, in which the file's name does not occur.
\<close>

theorem unpaired_error_does_not_name_the_file:
  "makeRun ''abc %{ write(1);'' False ''%{'' ''}%''
     = Inl (Error (''File '' @ [squote] @ ''[object Object]'' @ [squote] @ '' has an un-paired %{'')) \<and>
   includeSync 1 demo_host ''/dir/open._'' (JObject demo_dict) None
     = Some ([FileRead ''/dir/open._''],
             Throws (JError (''File '' @ [squote] @ ''[object Object]'' @ [squote] @ '' has an un-paired %{''))) \<and>
   include_async 1 demo_host ''/dir/open._'' (JObject demo_dict) (UserCallback ''cb'')
     = Some [FileRead ''/dir/open._'',
             CallbackCall (UserCallback ''cb'')
               [JError (''File '' @ [squote] @ ''[object Object]'' @ [squote] @ '' has an un-paired %{'')]] \<and>
   \<not> sublist ''open._'' (''File '' @ [squote] @ ''[object Object]'' @ [squote] @ '' has an un-paired %{'')"
  by (simp add: demo_simps unpaired_message_def path_module_text_def)

section \<open>The completion callback of include\<close>



















end
